theory Spec2Isabelle
  imports Main
begin

unbundle bit_operations_syntax

section \<open>The POSIX path functions used by DependencyGraph\<close>

text \<open>
  \<^verbatim>\<open>_getClosestPackage\<close> calls \<^verbatim>\<open>path.parse\<close>, \<^verbatim>\<open>path.join\<close> and
  \<^verbatim>\<open>path.dirname\<close> of Node's \<^verbatim>\<open>path\<close> module. They are modelled here in their
  POSIX variant, on strings as character lists, index by index as Node scans them.

  \<^verbatim>\<open>path.dirname\<close> scans from the last index down to index 1. Trailing separators are
  skipped (\<^verbatim>\<open>matchedSlash\<close> stays true until a non-separator is seen); the first separator
  met afterwards is \<^verbatim>\<open>end\<close>. \<open>None\<close> stands for \<^verbatim>\<open>end === -1\<close>.
\<close>

fun dirname_scan :: "string \<Rightarrow> nat \<Rightarrow> bool \<Rightarrow> nat option" where
  "dirname_scan p 0 matchedSlash = None"
| "dirname_scan p (Suc j) matchedSlash =
     (if p ! Suc j = CHR ''/''
      then (if \<not> matchedSlash then Some (Suc j) else dirname_scan p j matchedSlash)
      else dirname_scan p j False)"

definition dirname :: "string \<Rightarrow> string" where
  "dirname p =
     (if p = [] then ''.''
      else let hasRoot = (p ! 0 = CHR ''/'') in
        case dirname_scan p (length p - 1) True of
          None \<Rightarrow> (if hasRoot then ''/'' else ''.'')
        | Some end \<Rightarrow> (if hasRoot \<and> end = 1 then ''//'' else take end p))"

text \<open>
  \<^verbatim>\<open>path.parse\<close> runs the same scan from the last index down to \<^verbatim>\<open>start\<close> (1 for an
  absolute path, 0 otherwise) and records \<^verbatim>\<open>startPart = i + 1\<close> at the separator that
  precedes the last segment. The third argument counts the iterations that remain, so
  the index inspected is \<open>start + k\<close>. Only the fields \<^verbatim>\<open>root\<close> and \<^verbatim>\<open>dir\<close> are read by
  the graph.
\<close>

fun parse_scan :: "string \<Rightarrow> nat \<Rightarrow> nat \<Rightarrow> bool \<Rightarrow> nat" where
  "parse_scan p start 0 matchedSlash = 0"
| "parse_scan p start (Suc k) matchedSlash =
     (if p ! (start + k) = CHR ''/''
      then (if \<not> matchedSlash then start + k + 1 else parse_scan p start k matchedSlash)
      else parse_scan p start k False)"

record ParsedPath =
  root :: string
  dir :: string

definition parse :: "string \<Rightarrow> ParsedPath" where
  "parse p =
     (if p = [] then \<lparr>root = '''', dir = ''''\<rparr>
      else let isAbsolute = (p ! 0 = CHR ''/'');
               start = (if isAbsolute then 1 else 0);
               startPart = parse_scan p start (length p - start) True
           in \<lparr>root = (if isAbsolute then ''/'' else ''''),
               dir = (if startPart > 0 then take (startPart - 1) p
                      else if isAbsolute then ''/'' else '''')\<rparr>)"

text \<open>
  \<^verbatim>\<open>path.join\<close> concatenates its non-empty arguments with a separator and normalises the
  result. Normalisation works segment by segment: empty segments and \<^verbatim>\<open>.\<close> are dropped,
  \<^verbatim>\<open>..\<close> removes the segment before it (or is kept, for a relative path that climbs
  above its start), a trailing separator is kept.
\<close>

fun split_sep :: "string \<Rightarrow> string list" where
  "split_sep [] = [[]]"
| "split_sep (c # cs) =
     (if c = CHR ''/'' then [] # split_sep cs
      else (case split_sep cs of seg # segs \<Rightarrow> (c # seg) # segs | [] \<Rightarrow> [[c]]))"

fun join_sep :: "string list \<Rightarrow> string" where
  "join_sep [] = []"
| "join_sep [s] = s"
| "join_sep (s # ss) = s @ ''/'' @ join_sep ss"

definition normalize_segment :: "bool \<Rightarrow> string list \<Rightarrow> string \<Rightarrow> string list" where
  "normalize_segment allowAboveRoot res seg =
     (if seg = [] \<or> seg = ''.'' then res
      else if seg = ''..'' then
        (if res \<noteq> [] \<and> last res \<noteq> ''..'' then butlast res
         else if allowAboveRoot then res @ [''..''] else res)
      else res @ [seg])"

definition normalizeString :: "string \<Rightarrow> bool \<Rightarrow> string" where
  "normalizeString p allowAboveRoot =
     join_sep (foldl (normalize_segment allowAboveRoot) [] (split_sep p))"

definition normalize :: "string \<Rightarrow> string" where
  "normalize p =
     (if p = [] then ''.''
      else let isAbsolute = (p ! 0 = CHR ''/'');
               trailingSeparator = (last p = CHR ''/'');
               s = normalizeString p (\<not> isAbsolute)
           in if s = [] then (if isAbsolute then ''/'' else if trailingSeparator then ''./'' else ''.'')
              else (if isAbsolute then ''/'' else '''') @ s @ (if trailingSeparator then ''/'' else ''''))"

definition join :: "string \<Rightarrow> string \<Rightarrow> string" where
  "join a b =
     (let joined = (if a = [] then b else if b = [] then a else a @ ''/'' @ b)
      in if joined = [] then ''.'' else normalize joined)"


section \<open>Errors and early exits\<close>

text \<open>
  \<open>FsError\<close> carries the code of an exception thrown by \<^verbatim>\<open>fs.realpathSync\<close> or
  \<^verbatim>\<open>fs.readFileSync\<close>; \<open>ReferenceError\<close> is the error constructed on line 194 of the
  graph; \<open>ResolutionError\<close> is whatever \<^verbatim>\<open>ResolutionRequest.resolveDependency\<close> throws.
\<close>

datatype error = FsError string | ReferenceError string | ResolutionError string

text \<open>
  A block of \<^verbatim>\<open>return\<close> and \<^verbatim>\<open>throw\<close> statements completes at its first statement:
  whatever follows is never run.
\<close>

datatype 'a stmt = Return 'a | Throw error

datatype 'a completion = Normal | Returned 'a | Thrown error

fun exec_stmts :: "'a stmt list \<Rightarrow> 'a completion" where
  "exec_stmts [] = Normal"
| "exec_stmts (Return v # rest) = Returned v"
| "exec_stmts (Throw e # rest) = Thrown e"


section \<open>The state of a DependencyGraph\<close>

text \<open>
  \<^verbatim>\<open>HasteFS\<close> belongs to jest-haste-map; the graph only calls four of its methods, which
  are the fields of this record. The lookups return \<^verbatim>\<open>?string\<close>.
\<close>

record HasteFS =
  hfs_exists :: "string \<Rightarrow> bool"
  hfs_getSha1 :: "string \<Rightarrow> string option"
  hfs_getModuleName :: "string \<Rightarrow> string option"
  hfs_getAllFiles :: "string list"

type_synonym ModuleMap = "string \<rightharpoonup> string"

type_synonym CustomResolver = "string \<Rightarrow> string \<Rightarrow> string option \<Rightarrow> string option"

record ResolverConfigT =
  assetExts :: "string list"
  platforms :: "string list"
  providesModuleNodeModules :: "string list"
  extraNodeModules :: "(string \<times> string) list"
  resolverMainFields :: "string list"
  resolveRequest :: "CustomResolver option"
  sourceExts :: "string list"

record ConfigT =
  projectRoot :: string
  resolver :: ResolverConfigT

record DependencyGraphHelpers =
  helpers_assetExts :: "string list"
  helpers_providesModuleNodeModules :: "string list"

text \<open>
  Modelled from the spec: \<^verbatim>\<open>FilesByDirNameIndex\<close> is not among the sources. The spec's
  FileIndex is built in full from the list of all tracked paths and has no partial
  update, so an index is identified with the list it was built from.
\<close>

datatype FilesByDirNameIndex = FilesByDirNameIndex "string list"

text \<open>
  Modelled from the spec: \<^verbatim>\<open>AssetResolutionCache\<close> is not among the sources. The spec
  keys an entry by directory, asset base name and platform, the value being the resolved
  variant set; \<^verbatim>\<open>clear()\<close> forgets every entry.
\<close>

type_synonym AssetResolutionCache = "(string \<times> string \<times> string option) \<rightharpoonup> string list"

definition clear :: "AssetResolutionCache \<Rightarrow> AssetResolutionCache" where
  "clear cache = Map.empty"

text \<open>
  Modelled from the spec: \<^verbatim>\<open>Module\<close> and \<^verbatim>\<open>ModuleCache\<close> are not among the sources.
  The spec's ModuleMetadataCache holds one entry per path. \<^verbatim>\<open>get(path)\<close>, here
  \<^verbatim>\<open>getModule\<close>, returns the cached entry or creates and caches it on first access;
  a path without readable content at that time makes the creation fail with an I/O error,
  which reaches the caller. \<open>newModule\<close> is that creation. \<^verbatim>\<open>invalidate(path)\<close>, which
  the change handler reaches through \<^verbatim>\<open>processFileChange(type, filePath)\<close>, purges that
  one entry whatever the kind of the event.
\<close>

record Module =
  path :: string

type_synonym ModuleCache = "string \<rightharpoonup> Module"

definition getModule ::
  "(string \<Rightarrow> error + Module) \<Rightarrow> string \<Rightarrow> ModuleCache \<Rightarrow> error + Module \<times> ModuleCache" where
  "getModule newModule filePath cache =
     (case cache filePath of
        Some m \<Rightarrow> Inr (m, cache)
      | None \<Rightarrow>
          (case newModule filePath of
             Inl e \<Rightarrow> Inl e
           | Inr m \<Rightarrow> Inr (m, cache(filePath \<mapsto> m))))"

definition processFileChange :: "string \<Rightarrow> string \<Rightarrow> ModuleCache \<Rightarrow> ModuleCache" where
  "processFileChange type filePath cache = cache(filePath := None)"

text \<open>
  The options that \<^verbatim>\<open>_createModuleResolver\<close> copies into a new \<^verbatim>\<open>ModuleResolver\<close>.
  The closures \<^verbatim>\<open>dirExists\<close>, \<^verbatim>\<open>doesFileExist\<close>, \<^verbatim>\<open>isAssetFile\<close> and
  \<^verbatim>\<open>resolveAsset\<close> read the graph's fields when they are called, and \<^verbatim>\<open>moduleCache\<close>
  is a reference to the one cache object of the graph, so none of them is a copy.
\<close>

record ModuleResolver =
  mr_extraNodeModules :: "(string \<times> string) list"
  mr_mainFields :: "string list"
  mr_moduleMap :: ModuleMap
  mr_preferNativePlatform :: bool
  mr_resolveRequest :: "CustomResolver option"
  mr_sourceExts :: "string list"

text \<open>
  The fields of the class. \<^verbatim>\<open>_haste\<close>, the watcher handle, is only handed out by
  \<^verbatim>\<open>getWatcher\<close> and \<^verbatim>\<open>end\<close> and is left out. The graph is an \<^verbatim>\<open>EventEmitter\<close>:
  \<open>emitted\<close> logs each event emitted so far together with the fields as they were at
  that moment, which is what a listener, called synchronously by \<^verbatim>\<open>emit\<close>, can read.
\<close>

record GraphFields =
  assetResolutionCache :: AssetResolutionCache
  config :: ConfigT
  filesByDirNameIndex :: FilesByDirNameIndex
  hasteFS :: HasteFS
  helpers :: DependencyGraphHelpers
  moduleCache :: ModuleCache
  moduleMap :: ModuleMap
  moduleResolver :: ModuleResolver

record DependencyGraph = GraphFields +
  emitted :: "(string \<times> GraphFields) list"

definition emit :: "string \<Rightarrow> DependencyGraph \<Rightarrow> DependencyGraph" where
  "emit name g = g\<lparr>emitted := emitted g @ [(name, GraphFields.truncate g)]\<rparr>"


section \<open>The methods of DependencyGraph\<close>

subsection \<open>_getClosestPackage\<close>

text \<open>
  The do-while loop of lines 128 to 134, entered with the current \<^verbatim>\<open>dir\<close>. The body runs
  before the condition is looked at. The outer option is that of the loop returning at
  all; inside, \<open>None\<close> is \<^verbatim>\<open>null\<close>.
\<close>

partial_function (option) getClosestPackage_loop ::
  "HasteFS \<Rightarrow> string \<Rightarrow> string \<Rightarrow> string option option" where
  "getClosestPackage_loop fs rt d =
     (if hfs_exists fs (join d ''package.json'')
      then Some (Some (join d ''package.json''))
      else if dirname d \<noteq> ''.'' \<and> dirname d \<noteq> rt
           then getClosestPackage_loop fs rt (dirname d)
           else Some None)"

declare getClosestPackage_loop.simps [code]

definition getClosestPackage :: "DependencyGraph \<Rightarrow> string \<Rightarrow> string option option" where
  "getClosestPackage g filePath =
     (let parsedPath = parse filePath
      in getClosestPackage_loop (hasteFS g) (root parsedPath) (dir parsedPath))"

subsection \<open>_createModuleResolver and _onHasteChange\<close>

definition createModuleResolver :: "DependencyGraph \<Rightarrow> DependencyGraph" where
  "createModuleResolver g =
     g\<lparr>moduleResolver :=
        \<lparr>mr_extraNodeModules = extraNodeModules (resolver (config g)),
         mr_mainFields = resolverMainFields (resolver (config g)),
         mr_moduleMap = moduleMap g,
         mr_preferNativePlatform = True,
         mr_resolveRequest = resolveRequest (resolver (config g)),
         mr_sourceExts = sourceExts (resolver (config g))\<rparr>\<rparr>"

record FileEvent =
  type :: string
  filePath :: string

record ChangeEvent =
  eventsQueue :: "FileEvent list"
  change_hasteFS :: HasteFS
  change_moduleMap :: ModuleMap

text \<open>One binding per statement of the handler, in the order of lines 139 to 147.\<close>

definition onHasteChange :: "ChangeEvent \<Rightarrow> DependencyGraph \<Rightarrow> DependencyGraph" where
  "onHasteChange change g =
     (let g1 = g\<lparr>hasteFS := change_hasteFS change\<rparr>;
          g2 = g1\<lparr>filesByDirNameIndex :=
                    FilesByDirNameIndex (hfs_getAllFiles (change_hasteFS change))\<rparr>;
          g3 = g2\<lparr>assetResolutionCache := clear (assetResolutionCache g2)\<rparr>;
          g4 = g3\<lparr>moduleMap := change_moduleMap change\<rparr>;
          g5 = g4\<lparr>moduleCache :=
                    foldl (\<lambda>cache ev. processFileChange (type ev) (filePath ev) cache)
                      (moduleCache g4) (eventsQueue change)\<rparr>;
          g6 = createModuleResolver g5
      in emit ''change'' g6)"

subsection \<open>getSha1\<close>

text \<open>
  The two calls into \<^verbatim>\<open>fs\<close> either return or throw; \<open>Inl\<close> carries the code of the
  exception. \<^verbatim>\<open>readFileSync\<close> is the read with encoding \<^verbatim>\<open>'utf8'\<close>, so its result is
  the file's content decoded into a string, not the bytes of the file.
\<close>

record FileSystem =
  realpathSync :: "string \<Rightarrow> string + string"
  readFileSync :: "string \<Rightarrow> string + string"

text \<open>
  \<open>digest\<close> stands for \<^verbatim>\<open>crypto.createHash('sha1').update(content).digest('hex')\<close>.
  \<^verbatim>\<open>!sha1\<close> holds when the lookup gave \<^verbatim>\<open>null\<close> and when it gave the empty string. The
  block of lines 189 to 194 is run as it is written, the \<^verbatim>\<open>throw\<close> after the
  \<^verbatim>\<open>return\<close> included.
\<close>

definition getSha1 ::
  "FileSystem \<Rightarrow> (string \<Rightarrow> string) \<Rightarrow> DependencyGraph \<Rightarrow> string \<Rightarrow> error + string" where
  "getSha1 fs digest g filename =
     (case realpathSync fs filename of
        Inl code \<Rightarrow> Inl (FsError code)
      | Inr resolvedPath \<Rightarrow>
          (let sha1 = hfs_getSha1 (hasteFS g) resolvedPath
           in if sha1 = None \<or> sha1 = Some []
              then (case readFileSync fs resolvedPath of
                      Inl code \<Rightarrow> Inl (FsError code)
                    | Inr content \<Rightarrow>
                        (let otherSha1 = digest content
                         in case exec_stmts
                                  [Return otherSha1,
                                   Throw (ReferenceError
                                     (''SHA-1 for file '' @ filename @ '' is not computed''))] of
                              Returned v \<Rightarrow> Inr v
                            | Thrown e \<Rightarrow> Inl e
                            | Normal \<Rightarrow> Inr (case sha1 of Some s \<Rightarrow> s | None \<Rightarrow> [])))
              else Inr (case sha1 of Some s \<Rightarrow> s | None \<Rightarrow> [])))"

subsection \<open>resolveDependency\<close>

text \<open>
  \<^verbatim>\<open>platform || null\<close> turns the empty string into \<^verbatim>\<open>null\<close>. The request holds
  references to the resolver and to the helpers; the module cache and, through the
  resolver's \<^verbatim>\<open>resolveAsset\<close>, the asset cache are reached by reference too, so the
  resolution is run on the two caches as they are after \<^verbatim>\<open>getModule(from)\<close>. When
  \<^verbatim>\<open>getModule\<close> throws, the call ends there.
\<close>

record ResolutionRequest =
  req_moduleResolver :: ModuleResolver
  req_entryPath :: string
  req_helpers :: DependencyGraphHelpers
  req_platform :: "string option"

text \<open>
  Modelled from the spec: \<^verbatim>\<open>ResolutionRequest\<close> is not among the sources. Its method
  \<^verbatim>\<open>resolveDependency(fromModule, to)\<close> is a parameter: it is given the request, the
  origin module, the specifier and the graph it may read, and answers with the resolved
  module or an error, and with the two caches as it leaves them.
\<close>

type_synonym Resolution =
  "ResolutionRequest \<Rightarrow> Module \<Rightarrow> string \<Rightarrow> DependencyGraph
     \<Rightarrow> (error + Module) \<times> (AssetResolutionCache \<times> ModuleCache)"

definition resolveDependency ::
  "(string \<Rightarrow> error + Module) \<Rightarrow> Resolution \<Rightarrow> DependencyGraph
     \<Rightarrow> string \<Rightarrow> string \<Rightarrow> string option \<Rightarrow> (error + string) \<times> DependencyGraph" where
  "resolveDependency newModule resolve g from to platform =
     (let req = \<lparr>req_moduleResolver = moduleResolver g,
                 req_entryPath = from,
                 req_helpers = helpers g,
                 req_platform = (if platform = Some [] then None else platform)\<rparr>
      in case getModule newModule from (moduleCache g) of
           Inl e \<Rightarrow> (Inl e, g)
         | Inr (fromModule, cache1) \<Rightarrow>
             (let (result, (assets2, cache2)) =
                    resolve req fromModule to (g\<lparr>moduleCache := cache1\<rparr>);
                  g' = g\<lparr>assetResolutionCache := assets2, moduleCache := cache2\<rparr>
              in (case result of Inl e \<Rightarrow> (Inl e, g') | Inr m \<Rightarrow> (Inr (path m), g'))))"

subsection \<open>getHasteName\<close>

text \<open>
  \<^verbatim>\<open>path.relative\<close> resolves both of its arguments against the working directory of the
  process; it is a parameter. \<^verbatim>\<open>if (hasteName)\<close> fails for \<^verbatim>\<open>null\<close> and for the empty
  string.
\<close>

definition getHasteName ::
  "(string \<Rightarrow> string \<Rightarrow> string) \<Rightarrow> DependencyGraph \<Rightarrow> string \<Rightarrow> string" where
  "getHasteName relative g file =
     (case hfs_getModuleName (hasteFS g) file of
        Some hasteName \<Rightarrow>
          if hasteName \<noteq> [] then hasteName else relative (projectRoot (config g)) file
      | None \<Rightarrow> relative (projectRoot (config g)) file)"


section \<open>The directories the loop of _getClosestPackage visits\<close>

definition isAbsolute :: "string \<Rightarrow> bool" where
  "isAbsolute p = (p \<noteq> [] \<and> p ! 0 = CHR ''/'')"

text \<open>The first \<open>n\<close> members of the chain \<open>d\<close>, parent of \<open>d\<close>, grandparent of \<open>d\<close>, and so on.\<close>

fun iterate_dirname :: "nat \<Rightarrow> string \<Rightarrow> string list" where
  "iterate_dirname 0 d = []"
| "iterate_dirname (Suc n) d = d # iterate_dirname n (dirname d)"

text \<open>
  The directories whose manifest the loop of lines 128 to 134 may test: the directory
  the loop is entered with, then the values \<^verbatim>\<open>dir\<close> takes for as long as the condition
  of line 134 holds, that is, for as long as it is neither \<^verbatim>\<open>.\<close> nor the root of the
  path. A directory name of \<open>n\<close> characters has no more than \<open>n\<close> ancestors, which
  bounds the chain.
\<close>

definition tested_dirs :: "string \<Rightarrow> string list" where
  "tested_dirs file =
     (let rt = root (parse file); d = dir (parse file)
      in d # takeWhile (\<lambda>x. x \<noteq> ''.'' \<and> x \<noteq> rt) (iterate_dirname (length d) (dirname d)))"


section \<open>closestManifestFor as the specification words it\<close>

text \<open>
  The specification walks the directories upward while they remain within the registry's
  root, and returns the first ancestor whose manifest-file path exists in the registry.
  The root of the registry is no part of the \<^verbatim>\<open>HasteFS\<close> interface (the watcher is given
  its roots on line 97); here it is an argument.

  A directory is within the root when it is the root or lies below it.
\<close>

definition within_root :: "string \<Rightarrow> string \<Rightarrow> bool" where
  "within_root registryRoot d =
     (let below = (if registryRoot \<noteq> [] \<and> last registryRoot = CHR ''/''
                   then registryRoot else registryRoot @ ''/'')
      in d = registryRoot \<or> take (length below) d = below)"

text \<open>
  The chain of a directory and all its ancestors, up to the directory that is its own
  parent (\<^verbatim>\<open>/\<close> or \<^verbatim>\<open>.\<close>). The first argument bounds the length of the chain.
\<close>

fun ancestors_upto :: "nat \<Rightarrow> string \<Rightarrow> string list" where
  "ancestors_upto 0 d = [d]"
| "ancestors_upto (Suc n) d = (if dirname d = d then [d] else d # ancestors_upto n (dirname d))"

definition ancestor_dirs :: "string \<Rightarrow> string list" where
  "ancestor_dirs d = ancestors_upto (Suc (length d)) d"

definition spec_walk_dirs :: "string \<Rightarrow> string \<Rightarrow> string list" where
  "spec_walk_dirs registryRoot file =
     takeWhile (within_root registryRoot) (ancestor_dirs (dir (parse file)))"

definition closestManifestFor :: "string \<Rightarrow> HasteFS \<Rightarrow> string \<Rightarrow> string option" where
  "closestManifestFor registryRoot fs file =
     find (hfs_exists fs)
       (map (\<lambda>d. join d ''package.json'') (spec_walk_dirs registryRoot file))"


section \<open>Normalised absolute paths\<close>

text \<open>
  A normalised absolute path is written from its segments: none is empty, \<^verbatim>\<open>.\<close> or
  \<^verbatim>\<open>..\<close>, none holds a separator, and each is preceded by one separator.
\<close>

definition segment_ok :: "string \<Rightarrow> bool" where
  "segment_ok s = (s \<noteq> [] \<and> CHR ''/'' \<notin> set s \<and> s \<noteq> ''.'' \<and> s \<noteq> ''..'')"

definition absolute_path :: "string list \<Rightarrow> string" where
  "absolute_path segs = concat (map (\<lambda>s. CHR ''/'' # s) segs)"


section \<open>The bytes on disk and the digest behind getSha1\<close>

text \<open>
  The model of \<^verbatim>\<open>getSha1\<close> above takes \<^verbatim>\<open>fs\<close> and the digest as they are called. This
  section says what Node computes behind the two calls of lines 189 to 192, so that the
  value returned can be compared with the SHA-1 of the bytes of the file.

  A file holds bytes. \<^verbatim>\<open>fs.readFileSync(path, 'utf8')\<close> decodes them as UTF-8 into a
  string, and every ill-formed sequence becomes the replacement character U+FFFD. The
  decoder is the one of the WHATWG Encoding standard: \<open>cp\<close> is the code point being
  assembled, the second argument counts the continuation bytes still needed, and
  \<open>lower\<close> and \<open>upper\<close> bound the next byte. A byte that does not fit ends the sequence
  with U+FFFD and is looked at again as the start of the next one.
\<close>

fun utf8_decode :: "nat \<Rightarrow> nat \<Rightarrow> nat \<Rightarrow> nat \<Rightarrow> nat list \<Rightarrow> nat list" where
  "utf8_decode cp 0 lower upper [] = []"
| "utf8_decode cp (Suc needed) lower upper [] = [0xFFFD]"
| "utf8_decode cp 0 lower upper (b # bs) =
     (if b \<le> 0x7F then b # utf8_decode 0 0 0x80 0xBF bs
      else if 0xC2 \<le> b \<and> b \<le> 0xDF then utf8_decode (b mod 32) (Suc 0) 0x80 0xBF bs
      else if 0xE0 \<le> b \<and> b \<le> 0xEF then
        utf8_decode (b mod 16) (Suc (Suc 0))
          (if b = 0xE0 then 0xA0 else 0x80) (if b = 0xED then 0x9F else 0xBF) bs
      else if 0xF0 \<le> b \<and> b \<le> 0xF4 then
        utf8_decode (b mod 8) (Suc (Suc (Suc 0)))
          (if b = 0xF0 then 0x90 else 0x80) (if b = 0xF4 then 0x8F else 0xBF) bs
      else 0xFFFD # utf8_decode 0 0 0x80 0xBF bs)"
| "utf8_decode cp (Suc needed) lower upper (b # bs) =
     (if b < lower \<or> upper < b then 0xFFFD # utf8_decode 0 0 0x80 0xBF (b # bs)
      else if needed = 0 then (cp * 64 + b mod 64) # utf8_decode 0 0 0x80 0xBF bs
      else utf8_decode (cp * 64 + b mod 64) needed 0x80 0xBF bs)"

text \<open>
  \<^verbatim>\<open>hash.update(content)\<close> is given a string and hashes its UTF-8 encoding; a lone
  surrogate is encoded as U+FFFD.
\<close>

definition utf8_encode :: "nat \<Rightarrow> nat list" where
  "utf8_encode cp =
     (if cp < 0x80 then [cp]
      else if cp < 0x800 then [0xC0 + cp div 64, 0x80 + cp mod 64]
      else if 0xD800 \<le> cp \<and> cp \<le> 0xDFFF then [0xEF, 0xBF, 0xBD]
      else if cp < 0x10000 then
        [0xE0 + cp div 4096, 0x80 + cp div 64 mod 64, 0x80 + cp mod 64]
      else [0xF0 + cp div 262144, 0x80 + cp div 4096 mod 64,
            0x80 + cp div 64 mod 64, 0x80 + cp mod 64])"

text \<open>
  A string of the program is kept as the bytes of its UTF-8 encoding, which are the bytes
  the digest is taken of. \<open>utf8_read\<close> is then what the read with \<^verbatim>\<open>'utf8'\<close> makes of
  the bytes of a file.
\<close>

definition utf8_read :: "string \<Rightarrow> string" where
  "utf8_read bytes =
     map char_of (concat (map utf8_encode (utf8_decode 0 0 0x80 0xBF (map of_char bytes))))"

text \<open>
  A disk answers \<^verbatim>\<open>realpath\<close> and holds the bytes of each file, or the code of the
  error that reading it throws. \<open>node_fs\<close> is the \<^verbatim>\<open>fs\<close> of the program over that disk.
\<close>

record Disk =
  disk_realpath :: "string \<Rightarrow> string + string"
  disk_bytes :: "string \<Rightarrow> string + string"

definition node_fs :: "Disk \<Rightarrow> FileSystem" where
  "node_fs disk =
     \<lparr>realpathSync = disk_realpath disk,
      readFileSync = (\<lambda>p. case disk_bytes disk p of
                             Inl code \<Rightarrow> Inl code
                           | Inr bytes \<Rightarrow> Inr (utf8_read bytes))\<rparr>"

text \<open>
  SHA-1 (FIPS 180-4) on 32-bit words kept as natural numbers below \<open>2 ^ 32\<close>. The message
  is padded with \<^verbatim>\<open>0x80\<close>, zeros and its length in bits, and cut into words. Each block
  of 16 words runs 80 rounds; the message schedule is kept as a window of 16 words, the
  word for round \<open>t + 16\<close> being appended as round \<open>t\<close> uses the first one.
\<close>

definition be_bytes :: "nat \<Rightarrow> nat \<Rightarrow> nat list" where
  "be_bytes n v = map (\<lambda>i. (v div 256 ^ (n - 1 - i)) mod 256) [0..<n]"

definition sha1_pad :: "string \<Rightarrow> nat list" where
  "sha1_pad msg =
     map of_char msg @ [128] @ replicate ((119 - length msg mod 64) mod 64) 0
       @ be_bytes 8 (8 * length msg)"

fun sha1_words :: "nat list \<Rightarrow> nat list" where
  "sha1_words (b0 # b1 # b2 # b3 # bs) =
     (((b0 * 256 + b1) * 256 + b2) * 256 + b3) # sha1_words bs"
| "sha1_words bs = []"

definition rotl32 :: "nat \<Rightarrow> nat \<Rightarrow> nat" where
  "rotl32 n x = (x * 2 ^ n) mod 4294967296 + x div 2 ^ (32 - n)"

definition add32 :: "nat \<Rightarrow> nat \<Rightarrow> nat" where
  "add32 x y = (x + y) mod 4294967296"

definition not32 :: "nat \<Rightarrow> nat" where
  "not32 x = 4294967295 - x"

definition sha1_f :: "nat \<Rightarrow> nat \<Rightarrow> nat \<Rightarrow> nat \<Rightarrow> nat" where
  "sha1_f t b c d =
     (if t < 20 then (b AND c) OR (not32 b AND d)
      else if t < 40 then b XOR c XOR d
      else if t < 60 then (b AND c) OR (b AND d) OR (c AND d)
      else b XOR c XOR d)"

definition sha1_k :: "nat \<Rightarrow> nat" where
  "sha1_k t =
     (if t < 20 then 0x5A827999 else if t < 40 then 0x6ED9EBA1
      else if t < 60 then 0x8F1BBCDC else 0xCA62C1D6)"

fun sha1_round :: "nat list \<times> nat list \<Rightarrow> nat \<Rightarrow> nat list \<times> nat list" where
  "sha1_round ([a, b, c, d, e], w) t =
     ([add32 (add32 (add32 (add32 (rotl32 5 a) (sha1_f t b c d)) e) (sha1_k t)) (w ! 0),
       a, rotl32 30 b, c, d],
      tl w @ [rotl32 1 (w ! 13 XOR w ! 8 XOR w ! 2 XOR w ! 0)])"
| "sha1_round s t = s"

definition sha1_block :: "nat list \<Rightarrow> nat list \<Rightarrow> nat list" where
  "sha1_block h block = map2 add32 h (fst (foldl sha1_round (h, block) [0..<80]))"

function sha1_blocks :: "nat list \<Rightarrow> nat list \<Rightarrow> nat list" where
  "sha1_blocks h ws =
     (if ws = [] then h else sha1_blocks (sha1_block h (take 16 ws)) (drop 16 ws))"
  by pat_completeness auto
termination
  by (relation "measure (\<lambda>(h, ws). length ws)") auto

definition hex_digit :: "nat \<Rightarrow> char" where
  "hex_digit n = ''0123456789abcdef'' ! (n mod 16)"

definition hex_word :: "nat \<Rightarrow> string" where
  "hex_word w = map (\<lambda>i. hex_digit (w div 16 ^ (7 - i))) [0..<8]"

text \<open>\<^verbatim>\<open>crypto.createHash('sha1').update(content).digest('hex')\<close>\<close>

definition sha1_hex :: "string \<Rightarrow> string" where
  "sha1_hex msg =
     concat (map hex_word
       (sha1_blocks [0x67452301, 0xEFCDAB89, 0x98BADCFE, 0x10325476, 0xC3D2E1F0]
          (sha1_words (sha1_pad msg))))"


section \<open>A small project\<close>

text \<open>
  A registry of three files under \<^verbatim>\<open>/proj\<close>. Only \<^verbatim>\<open>a.js\<close> has a recorded hash and a
  global name; \<^verbatim>\<open>b.js\<close> is registered under the empty name. On disk \<^verbatim>\<open>/proj/link.js\<close>
  is a symbolic link to \<^verbatim>\<open>a.js\<close>, and \<^verbatim>\<open>/proj/src\<close> is a directory.
\<close>

definition example_hasteFS :: HasteFS where
  "example_hasteFS =
     \<lparr>hfs_exists = (\<lambda>f. f = ''/proj/package.json'' \<or> f = ''/proj/src/a.js'' \<or> f = ''/proj/src/b.js''),
      hfs_getSha1 = (\<lambda>f. if f = ''/proj/src/a.js''
                          then Some ''a9993e364706816aba3e25717850c26c9cd0d89d'' else None),
      hfs_getModuleName = (\<lambda>f. if f = ''/proj/src/a.js'' then Some ''a''
                                else if f = ''/proj/src/b.js'' then Some [] else None),
      hfs_getAllFiles = [''/proj/package.json'', ''/proj/src/a.js'', ''/proj/src/b.js'']\<rparr>"

definition example_config :: ConfigT where
  "example_config =
     \<lparr>projectRoot = ''/proj'',
      resolver = \<lparr>assetExts = [''png''], platforms = [''ios'', ''android''],
                  providesModuleNodeModules = [], extraNodeModules = [],
                  resolverMainFields = [''browser'', ''main''], resolveRequest = None,
                  sourceExts = [''js'', ''json'']\<rparr>\<rparr>"

definition example_graph :: DependencyGraph where
  "example_graph =
     \<lparr>assetResolutionCache = [(''/proj/img'', ''logo'', None) \<mapsto> [''/proj/img/logo.png'']],
      config = example_config,
      filesByDirNameIndex = FilesByDirNameIndex (hfs_getAllFiles example_hasteFS),
      hasteFS = example_hasteFS,
      helpers = \<lparr>helpers_assetExts = [''png''], helpers_providesModuleNodeModules = []\<rparr>,
      moduleCache = [''/proj/src/b.js'' \<mapsto> \<lparr>path = ''/proj/src/b.js''\<rparr>],
      moduleMap = [''a'' \<mapsto> ''/proj/src/a.js''],
      moduleResolver =
        \<lparr>mr_extraNodeModules = [], mr_mainFields = [''browser'', ''main''],
         mr_moduleMap = [''a'' \<mapsto> ''/proj/src/a.js''], mr_preferNativePlatform = True,
         mr_resolveRequest = None, mr_sourceExts = [''js'', ''json'']\<rparr>,
      emitted = []\<rparr>"

definition example_fs :: FileSystem where
  "example_fs =
     \<lparr>realpathSync = (\<lambda>f. if f = ''/proj/link.js'' then Inr ''/proj/src/a.js''
                           else if f = ''/proj/src/a.js'' \<or> f = ''/proj/src/b.js'' \<or> f = ''/proj/src''
                           then Inr f else Inl ''ENOENT''),
      readFileSync = (\<lambda>f. if f = ''/proj/src/a.js'' then Inr ''abc''
                           else if f = ''/proj/src/b.js'' then Inr ''module.exports = 1;''
                           else if f = ''/proj/src'' then Inl ''EISDIR'' else Inl ''ENOENT'')\<rparr>"

definition example_digest :: "string \<Rightarrow> string" where
  "example_digest content = ''sha1:'' @ content"

definition example_relative :: "string \<Rightarrow> string \<Rightarrow> string" where
  "example_relative from to = drop (Suc (length from)) to"

text \<open>A batch that reports \<^verbatim>\<open>b.js\<close> deleted and \<^verbatim>\<open>c.js\<close> added.\<close>

definition example_change :: ChangeEvent where
  "example_change =
     \<lparr>eventsQueue = [\<lparr>type = ''delete'', filePath = ''/proj/src/b.js''\<rparr>,
                     \<lparr>type = ''add'', filePath = ''/proj/src/c.js''\<rparr>],
      change_hasteFS = example_hasteFS
        \<lparr>hfs_exists := (\<lambda>f. f = ''/proj/package.json'' \<or> f = ''/proj/src/a.js'' \<or> f = ''/proj/src/c.js''),
         hfs_getAllFiles := [''/proj/package.json'', ''/proj/src/a.js'', ''/proj/src/c.js'']\<rparr>,
      change_moduleMap = [''a'' \<mapsto> ''/proj/src/a.js'', ''c'' \<mapsto> ''/proj/src/c.js'']\<rparr>"

text \<open>Every file of the example is readable, so the creation of a module succeeds.\<close>

definition example_newModule :: "string \<Rightarrow> error + Module" where
  "example_newModule file = Inr \<lparr>path = file\<rparr>"

text \<open>A resolution that finds nothing and hands both caches back as it received them.\<close>

definition readonly_resolution :: Resolution where
  "readonly_resolution req fromModule to g =
     (Inl (ResolutionError to), (assetResolutionCache g, moduleCache g))"

text \<open>
  A registry rooted at the root directory of the file system, with a manifest there and
  one in \<^verbatim>\<open>/x\<close>; the files \<^verbatim>\<open>/c.js\<close> and \<^verbatim>\<open>/a/b.js\<close> have no other manifest above them
  than that of the root.
\<close>

definition root_manifest_graph :: DependencyGraph where
  "root_manifest_graph =
     example_graph\<lparr>hasteFS := example_hasteFS
       \<lparr>hfs_exists := (\<lambda>f. f = ''/package.json'' \<or> f = ''/c.js'' \<or> f = ''/a/b.js''
                              \<or> f = ''/x/package.json''),
        hfs_getAllFiles := [''/package.json'', ''/c.js'', ''/a/b.js'', ''/x/package.json'']\<rparr>\<rparr>"

text \<open>
  A disk with two image files that are not UTF-8 text and a text file, none of which
  the registry of the example has a hash for.
\<close>

definition binary_disk :: Disk where
  "binary_disk =
     \<lparr>disk_realpath = (\<lambda>f. if f = ''/proj/img/logo.png'' \<or> f = ''/proj/img/icon.png''
                                \<or> f = ''/proj/img/notes.txt''
                            then Inr f else Inl ''ENOENT''),
      disk_bytes = (\<lambda>f. if f = ''/proj/img/logo.png'' then Inr [CHR 0xFF, CHR 0xFE, CHR 0x00]
                         else if f = ''/proj/img/icon.png'' then Inr [CHR 0xFE, CHR 0xFF, CHR 0x00]
                         else if f = ''/proj/img/notes.txt'' then Inr ''abc''
                         else Inl ''ENOENT'')\<rparr>"


section \<open>Facts about the path functions\<close>

lemma dirname_scan_bounds:
  "dirname_scan p i m = Some e \<Longrightarrow> 1 \<le> e \<and> e \<le> i \<and> (m \<longrightarrow> e < i)"
proof (induction i arbitrary: m)
  case 0
  then show ?case by simp
next
  case (Suc j)
  show ?case
  proof (cases "p ! Suc j = CHR ''/''")
    case True
    show ?thesis
    proof (cases m)
      case True
      with \<open>p ! Suc j = CHR ''/''\<close> Suc.prems have "dirname_scan p j True = Some e" by simp
      from Suc.IH[OF this] show ?thesis by simp
    next
      case False
      with \<open>p ! Suc j = CHR ''/''\<close> Suc.prems show ?thesis by simp
    qed
  next
    case False
    with Suc.prems have "dirname_scan p j False = Some e" by simp
    from Suc.IH[OF this] show ?thesis by simp
  qed
qed

lemma dirname_shorter:
  assumes "dirname d \<noteq> ''.''" and "dirname d \<noteq> ''/''"
  shows "length (dirname d) < length d"
proof -
  from assms(1) have ne: "d \<noteq> []" by (auto simp: dirname_def)
  show ?thesis
  proof (cases "dirname_scan d (length d - 1) True")
    case None
    with ne assms show ?thesis by (auto simp: dirname_def Let_def split: if_splits)
  next
    case (Some e)
    from dirname_scan_bounds[OF Some] have "1 \<le> e" "e < length d - 1" by auto
    with ne Some show ?thesis by (auto simp: dirname_def Let_def)
  qed
qed

lemma dirname_absolute:
  assumes "isAbsolute (dirname d)"
  shows "isAbsolute d"
proof (cases "d = []")
  case True
  with assms show ?thesis by (simp add: dirname_def isAbsolute_def)
next
  case False
  show ?thesis
  proof (cases "dirname_scan d (length d - 1) True")
    case None
    with False assms show ?thesis by (auto simp: dirname_def isAbsolute_def Let_def split: if_splits)
  next
    case (Some e)
    from dirname_scan_bounds[OF Some] have "1 \<le> e" by simp
    with False Some assms show ?thesis
      by (auto simp: dirname_def isAbsolute_def Let_def split: if_splits)
  qed
qed

lemma dirname_not_root: "\<not> isAbsolute d \<Longrightarrow> dirname d \<noteq> ''/''"
  using dirname_absolute[of d] by (auto simp: isAbsolute_def)

lemma parse_root: "root (parse p) = (if isAbsolute p then ''/'' else '''')"
  by (simp add: parse_def isAbsolute_def Let_def)

lemma parse_dir_absolute: "isAbsolute (dir (parse p)) \<Longrightarrow> isAbsolute p"
  by (auto simp: parse_def isAbsolute_def Let_def split: if_splits)


section \<open>The loop of _getClosestPackage returns, and what it returns\<close>

text \<open>
  Whenever an absolute directory comes with the root \<^verbatim>\<open>/\<close>, the loop entered at \<open>d\<close>
  returns the first existing manifest among \<open>d\<close> and the ancestors of \<open>d\<close> that the
  condition lets through. Each round shortens the directory, so \<open>n\<close> rounds are enough
  for a directory of at most \<open>n\<close> characters.
\<close>

lemma getClosestPackage_loop_walk:
  "length d \<le> n \<Longrightarrow> (isAbsolute d \<longrightarrow> rt = ''/'') \<Longrightarrow>
   getClosestPackage_loop fs rt d =
     Some (find (hfs_exists fs) (map (\<lambda>d. join d ''package.json'')
       (d # takeWhile (\<lambda>x. x \<noteq> ''.'' \<and> x \<noteq> rt) (iterate_dirname n (dirname d)))))"
proof (induction n arbitrary: d)
  case 0
  then have "d = []" by simp
  then show ?case
    by (subst getClosestPackage_loop.simps) (simp add: dirname_def)
next
  case (Suc n)
  let ?ok = "\<lambda>x. x \<noteq> ''.'' \<and> x \<noteq> rt"
  show ?case
  proof (cases "?ok (dirname d)")
    case False
    then show ?thesis
      by (subst getClosestPackage_loop.simps) auto
  next
    case True
    have nr: "dirname d \<noteq> ''/''"
    proof (cases "isAbsolute d")
      case True
      with Suc.prems(2) have "rt = ''/''" by simp
      with \<open>?ok (dirname d)\<close> show ?thesis by simp
    next
      case False
      then show ?thesis by (rule dirname_not_root)
    qed
    with True have "length (dirname d) < length d" by (intro dirname_shorter) auto
    with Suc.prems(1) have len: "length (dirname d) \<le> n" by simp
    have inv: "isAbsolute (dirname d) \<longrightarrow> rt = ''/''"
      using dirname_absolute[of d] Suc.prems(2) by blast
    from Suc.IH[OF len inv] True show ?thesis
      by (subst getClosestPackage_loop.simps) simp
  qed
qed

lemma getClosestPackage_walk:
  "getClosestPackage g file =
     Some (find (hfs_exists (hasteFS g)) (map (\<lambda>d. join d ''package.json'') (tested_dirs file)))"
  unfolding getClosestPackage_def tested_dirs_def Let_def
  by (rule getClosestPackage_loop_walk) (auto simp: parse_root dest: parse_dir_absolute)

lemma tested_dirs_shape:
  "\<exists>ds. tested_dirs file = dir (parse file) # ds \<and>
        (\<forall>d \<in> set ds. d \<noteq> ''.'' \<and> d \<noteq> root (parse file))"
  unfolding tested_dirs_def Let_def
  by (auto dest: set_takeWhileD)

lemma iterate_dirname_nth:
  "i < n \<Longrightarrow> iterate_dirname n d ! i = (dirname ^^ i) d"
proof (induction n arbitrary: d i)
  case 0
  then show ?case by simp
next
  case (Suc n)
  then show ?case by (cases i) (simp_all add: funpow_swap1)
qed

lemma length_iterate_dirname: "length (iterate_dirname n d) = n"
  by (induction n arbitrary: d) simp_all

lemma tested_dirs_nth:
  assumes "i < length (tested_dirs file)"
  shows "tested_dirs file ! i = (dirname ^^ i) (dir (parse file))"
proof (cases i)
  case 0
  then show ?thesis by (simp add: tested_dirs_def Let_def)
next
  case (Suc j)
  let ?xs = "iterate_dirname (length (dir (parse file))) (dirname (dir (parse file)))"
  let ?P = "\<lambda>x. x \<noteq> ''.'' \<and> x \<noteq> root (parse file)"
  from assms Suc have j: "j < length (takeWhile ?P ?xs)"
    by (simp add: tested_dirs_def Let_def)
  then have "takeWhile ?P ?xs ! j = ?xs ! j" by (rule takeWhile_nth)
  also have "j < length ?xs"
    using j length_takeWhile_le[of ?P ?xs] by (rule less_le_trans)
  then have "?xs ! j = (dirname ^^ j) (dirname (dir (parse file)))"
    by (simp add: iterate_dirname_nth length_iterate_dirname)
  finally show ?thesis
    using Suc by (simp add: tested_dirs_def Let_def funpow_swap1)
qed

lemma processFileChange_foldl:
  "foldl (\<lambda>cache ev. processFileChange (type ev) (filePath ev) cache) cache evs =
     (\<lambda>p. if p \<in> filePath ` set evs then None else cache p)"
proof (induction evs arbitrary: cache)
  case Nil
  show ?case by simp
next
  case (Cons ev evs)
  show ?case
    by (simp add: Cons.IH) (auto simp: processFileChange_def fun_eq_iff)
qed


section \<open>Normalised absolute paths\<close>

lemma absolute_path_snoc: "absolute_path (segs @ [s]) = absolute_path segs @ CHR ''/'' # s"
  by (simp add: absolute_path_def)

lemma absolute_path_Cons: "absolute_path (s # segs) = CHR ''/'' # s @ absolute_path segs"
  by (simp add: absolute_path_def)

lemma dirname_scan_last_segment:
  "CHR ''/'' \<notin> set s \<Longrightarrow> k \<le> length s \<Longrightarrow> (m \<longrightarrow> 0 < k) \<Longrightarrow>
   dirname_scan (A @ CHR ''/'' # s) (length A + k) m = (if A = [] then None else Some (length A))"
proof (induction k arbitrary: m)
  case 0
  then show ?case by (cases A rule: rev_cases) (simp_all add: nth_append)
next
  case (Suc k)
  from Suc.prems have "s ! k \<noteq> CHR ''/''" by (metis Suc_le_lessD nth_mem)
  with Suc show ?case by (simp add: nth_append)
qed

lemma dirname_append_segment:
  assumes "CHR ''/'' \<notin> set s" "s \<noteq> []" "A ! 0 = CHR ''/''" "2 \<le> length A"
  shows "dirname (A @ CHR ''/'' # s) = A"
proof -
  from assms(4) have ne: "A \<noteq> []" by auto
  have "dirname_scan (A @ CHR ''/'' # s) (length A + length s) True =
          (if A = [] then None else Some (length A))"
    using assms(1,2) by (intro dirname_scan_last_segment) simp_all
  with ne assms(3,4) show ?thesis
    by (simp add: dirname_def Let_def nth_append)
qed

lemma dirname_root_segment:
  assumes "CHR ''/'' \<notin> set s" "s \<noteq> []"
  shows "dirname (CHR ''/'' # s) = ''/''"
proof -
  have "dirname_scan ([] @ CHR ''/'' # s) (length ([]::string) + length s) True =
          (if ([]::string) = [] then None else Some (length ([]::string)))"
    using assms by (intro dirname_scan_last_segment) simp_all
  then show ?thesis
    by (simp add: dirname_def)
qed

lemma absolute_path_facts:
  assumes "segs \<noteq> []" "\<forall>x \<in> set segs. segment_ok x"
  shows "absolute_path segs ! 0 = CHR ''/''" "2 \<le> length (absolute_path segs)"
proof -
  from assms obtain x xs where segs: "segs = x # xs" by (cases segs) auto
  with assms(2) have "x \<noteq> []" by (simp add: segment_ok_def)
  then obtain c cs where "x = c # cs" by (cases x) auto
  with segs show "absolute_path segs ! 0 = CHR ''/''" "2 \<le> length (absolute_path segs)"
    by (simp_all add: absolute_path_Cons)
qed

lemma dirname_absolute_path:
  assumes "\<forall>x \<in> set segs. segment_ok x" "segment_ok s"
  shows "dirname (absolute_path (segs @ [s])) = (if segs = [] then ''/'' else absolute_path segs)"
proof (cases "segs = []")
  case True
  with assms(2) show ?thesis
    by (simp add: absolute_path_def dirname_root_segment segment_ok_def)
next
  case False
  from absolute_path_facts[OF False assms(1)] assms(2) False show ?thesis
    by (simp add: absolute_path_snoc dirname_append_segment segment_ok_def)
qed

lemma parse_scan_last_segment:
  "CHR ''/'' \<notin> set s \<Longrightarrow> k \<le> length s \<Longrightarrow> (m \<longrightarrow> 0 < k) \<Longrightarrow> A \<noteq> [] \<Longrightarrow>
   parse_scan (A @ CHR ''/'' # s) 1 (length A + k) m = length A + 1"
proof (induction k arbitrary: m)
  case 0
  then obtain a as where "A = as @ [a]" by (cases A rule: rev_cases) auto
  with 0 show ?case by (simp add: nth_append)
next
  case (Suc k)
  from Suc.prems have "s ! k \<noteq> CHR ''/''" by (metis Suc_le_lessD nth_mem)
  with Suc show ?case by (simp add: nth_append)
qed

lemma parse_absolute_path:
  assumes "segs \<noteq> []" "\<forall>x \<in> set segs. segment_ok x" "segment_ok s"
  shows "root (parse (absolute_path (segs @ [s]))) = ''/''"
    and "dir (parse (absolute_path (segs @ [s]))) = absolute_path segs"
proof -
  let ?A = "absolute_path segs"
  note facts = absolute_path_facts[OF assms(1,2)]
  from facts(2) have ne: "?A \<noteq> []" by auto
  from assms(3) have s: "CHR ''/'' \<notin> set s" "s \<noteq> []" by (simp_all add: segment_ok_def)
  have scan: "parse_scan (?A @ CHR ''/'' # s) 1 (length ?A + length s) True = length ?A + 1"
    using s ne by (intro parse_scan_last_segment) simp_all
  have first: "(?A @ CHR ''/'' # s) ! 0 = CHR ''/''"
    using ne facts(1) by (simp add: nth_append)
  show "root (parse (absolute_path (segs @ [s]))) = ''/''"
    using first by (simp add: parse_def absolute_path_snoc Let_def)
  show "dir (parse (absolute_path (segs @ [s]))) = absolute_path segs"
    using first scan by (simp add: parse_def absolute_path_snoc Let_def)
qed

lemma split_sep_segment: "CHR ''/'' \<notin> set s \<Longrightarrow> split_sep s = [s]"
  by (induction s) auto

lemma split_sep_append:
  "CHR ''/'' \<notin> set s \<Longrightarrow> split_sep (s @ CHR ''/'' # rest) = s # split_sep rest"
  by (induction s) auto

lemma split_sep_absolute_path:
  "\<forall>x \<in> set segs. CHR ''/'' \<notin> set x \<Longrightarrow>
   split_sep (absolute_path segs) = (if segs = [] then [[]] else [] # segs)"
proof (induction segs)
  case Nil
  show ?case by (simp add: absolute_path_def)
next
  case (Cons x xs)
  show ?case
  proof (cases xs)
    case Nil
    with Cons.prems show ?thesis
      by (simp add: absolute_path_def split_sep_segment)
  next
    case (Cons y ys)
    with Cons.IH Cons.prems have "split_sep (absolute_path xs) = [] # xs" by simp
    moreover from Cons have "absolute_path xs = CHR ''/'' # y @ absolute_path ys"
      by (simp add: absolute_path_Cons)
    ultimately have "split_sep (x @ absolute_path xs) = x # xs"
      using Cons.prems by (simp add: split_sep_append)
    then show ?thesis by (simp add: absolute_path_Cons)
  qed
qed

lemma foldl_normalize_segment:
  "\<forall>x \<in> set segs. segment_ok x \<Longrightarrow> foldl (normalize_segment b) acc segs = acc @ segs"
  by (induction segs arbitrary: acc) (simp_all add: normalize_segment_def segment_ok_def)

lemma join_sep_absolute_path: "segs \<noteq> [] \<Longrightarrow> CHR ''/'' # join_sep segs = absolute_path segs"
  by (induction segs rule: join_sep.induct) (simp_all add: absolute_path_def)

lemma last_absolute_path:
  assumes "segs \<noteq> []" "\<forall>x \<in> set segs. segment_ok x"
  shows "last (absolute_path segs) \<noteq> CHR ''/''"
proof -
  from assms(1) obtain xs x where segs: "segs = xs @ [x]" by (cases segs rule: rev_cases) auto
  with assms(2) have "x \<noteq> []" "CHR ''/'' \<notin> set x" by (simp_all add: segment_ok_def)
  then have "last x \<noteq> CHR ''/''" by (metis last_in_set)
  with segs \<open>x \<noteq> []\<close> show ?thesis by (simp add: absolute_path_snoc)
qed

lemma normalize_absolute_path:
  assumes "segs \<noteq> []" "\<forall>x \<in> set segs. segment_ok x"
  shows "normalize (absolute_path segs) = absolute_path segs"
proof -
  note facts = absolute_path_facts[OF assms]
  from facts(2) have ne: "absolute_path segs \<noteq> []" by auto
  from assms(2) have "\<forall>x \<in> set segs. CHR ''/'' \<notin> set x" by (simp add: segment_ok_def)
  then have "split_sep (absolute_path segs) = [] # segs"
    using assms(1) by (simp add: split_sep_absolute_path)
  then have ns: "normalizeString (absolute_path segs) False = join_sep segs"
    using assms(2) by (simp add: normalizeString_def foldl_normalize_segment normalize_segment_def)
  have "2 \<le> length (CHR ''/'' # join_sep segs)"
    using facts(2) join_sep_absolute_path[OF assms(1)] by simp
  then have js: "join_sep segs \<noteq> []" by auto
  show ?thesis
    using ne facts(1) last_absolute_path[OF assms] ns js join_sep_absolute_path[OF assms(1)]
    by (simp add: normalize_def Let_def)
qed

lemma join_absolute_path:
  assumes "segs \<noteq> []" "\<forall>x \<in> set segs. segment_ok x" "segment_ok s"
  shows "join (absolute_path segs) s = absolute_path (segs @ [s])"
proof -
  from absolute_path_facts(2)[OF assms(1,2)] have ne: "absolute_path segs \<noteq> []" by auto
  from assms(3) have "s \<noteq> []" by (simp add: segment_ok_def)
  with ne have "join (absolute_path segs) s = normalize (absolute_path (segs @ [s]))"
    by (simp add: join_def absolute_path_snoc)
  also have "\<dots> = absolute_path (segs @ [s])"
    using assms by (intro normalize_absolute_path) auto
  finally show ?thesis .
qed

text \<open>
  Entered at a normalised absolute directory, the loop tests the manifest of that
  directory and of each of its ancestors below the root, nearest first, and nothing else.
\<close>

lemma getClosestPackage_loop_normalised:
  "segs \<noteq> [] \<Longrightarrow> \<forall>x \<in> set segs. segment_ok x \<Longrightarrow>
   getClosestPackage_loop fs ''/'' (absolute_path segs) =
     Some (find (hfs_exists fs)
             (map (\<lambda>k. absolute_path (take k segs @ [''package.json'']))
                (rev [1..<Suc (length segs)])))"
proof (induction segs rule: rev_induct)
  case Nil
  then show ?case by simp
next
  case (snoc s segs)
  let ?cand = "\<lambda>xs k. absolute_path (take k xs @ [''package.json''])"
  have ok: "segment_ok ''package.json''" by (simp add: segment_ok_def)
  from snoc.prems have cand: "join (absolute_path (segs @ [s])) ''package.json'' =
                    ?cand (segs @ [s]) (Suc (length segs))"
    using join_absolute_path[of "segs @ [s]" "''package.json''"] ok by simp
  from snoc.prems have up: "dirname (absolute_path (segs @ [s])) =
                     (if segs = [] then ''/'' else absolute_path segs)"
    by (intro dirname_absolute_path) auto
  have list: "rev [1..<Suc (length (segs @ [s]))] =
                Suc (length segs) # rev [1..<Suc (length segs)]"
    by simp
  have same: "map (?cand (segs @ [s])) (rev [1..<Suc (length segs)]) =
              map (?cand segs) (rev [1..<Suc (length segs)])"
    by (rule map_cong) auto
  show ?case
  proof (cases "hfs_exists fs (?cand (segs @ [s]) (Suc (length segs)))")
    case True
    with cand show ?thesis
      by (subst getClosestPackage_loop.simps) (simp only: list, simp)
  next
    case no: False
    show ?thesis
    proof (cases "segs = []")
      case True
      with no cand up show ?thesis
        by (subst getClosestPackage_loop.simps) simp
    next
      case False
      from snoc.prems have oks: "\<forall>x \<in> set segs. segment_ok x" by simp
      note facts = absolute_path_facts[OF False oks]
      have "absolute_path segs \<noteq> ''.''" "absolute_path segs \<noteq> ''/''"
        using facts by auto
      then have "getClosestPackage_loop fs ''/'' (absolute_path (segs @ [s])) =
                   getClosestPackage_loop fs ''/'' (absolute_path segs)"
        using no cand up False by (subst getClosestPackage_loop.simps) simp
      also have "\<dots> = Some (find (hfs_exists fs) (map (?cand segs) (rev [1..<Suc (length segs)])))"
        by (rule snoc.IH[OF False oks])
      finally show ?thesis
        using no by (simp only: list same[symmetric], simp)
    qed
  qed
qed

lemma getClosestPackage_normalised:
  assumes "segs \<noteq> []" "\<forall>x \<in> set (segs @ [base]). segment_ok x"
  shows "getClosestPackage g (absolute_path (segs @ [base])) =
           Some (find (hfs_exists (hasteFS g))
                   (map (\<lambda>k. absolute_path (take k segs @ [''package.json'']))
                      (rev [1..<Suc (length segs)])))"
proof -
  from assms(2) have oks: "\<forall>x \<in> set segs. segment_ok x" and okb: "segment_ok base" by simp_all
  from parse_absolute_path[OF assms(1) oks okb]
  have "getClosestPackage g (absolute_path (segs @ [base])) =
          getClosestPackage_loop (hasteFS g) ''/'' (absolute_path segs)"
    by (simp add: getClosestPackage_def Let_def)
  then show ?thesis
    using getClosestPackage_loop_normalised[OF assms(1) oks] by simp
qed

lemma root_manifest_not_tested:
  assumes "1 \<le> k" "segs \<noteq> []"
  shows "absolute_path (take k segs @ [''package.json'']) \<noteq> ''/package.json''"
proof -
  from assms obtain x xs where "take k segs = x # xs"
    by (cases "take k segs") auto
  then have "absolute_path (take k segs) \<noteq> []" by (simp add: absolute_path_Cons)
  then show ?thesis by (simp add: absolute_path_snoc)
qed

text \<open>The walk of the specification, for a normalised file below a normalised root.\<close>

lemma ancestors_upto_head: "\<exists>rest. ancestors_upto n d = d # rest"
  by (cases n) auto

lemma within_root_below:
  assumes "rs \<noteq> []" "\<forall>x \<in> set (rs @ ds). segment_ok x"
  shows "within_root (absolute_path rs) (absolute_path (rs @ ds))"
proof (cases ds)
  case Nil
  then show ?thesis by (simp add: within_root_def Let_def)
next
  case (Cons y ys)
  from assms have "last (absolute_path rs) \<noteq> CHR ''/''"
    by (intro last_absolute_path) auto
  moreover have "absolute_path (rs @ ds) = absolute_path rs @ CHR ''/'' # y @ absolute_path ys"
    using Cons by (simp add: absolute_path_def)
  ultimately show ?thesis by (simp add: within_root_def Let_def)
qed

lemma within_root_shorter:
  assumes "length d < length registryRoot"
  shows "\<not> within_root registryRoot d"
proof -
  have differ: "d \<noteq> registryRoot" using assms by auto
  have no_prefix: "take (length below) d \<noteq> below"
    if "length registryRoot \<le> length below" for below
  proof
    assume "take (length below) d = below"
    moreover have "length (take (length below) d) \<le> length d" by simp
    ultimately have "length below \<le> length d" by simp
    with that assms show False by simp
  qed
  from differ no_prefix[of registryRoot] no_prefix[of "registryRoot @ ''/''"]
  show ?thesis by (simp add: within_root_def Let_def)
qed

lemma dirname_normalised_shorter:
  assumes "segs \<noteq> []" "\<forall>x \<in> set segs. segment_ok x"
  shows "length (dirname (absolute_path segs)) < length (absolute_path segs)"
proof -
  from assms(1) obtain xs s where segs: "segs = xs @ [s]" by (cases segs rule: rev_cases) auto
  with assms(2) have oks: "\<forall>x \<in> set xs. segment_ok x" and ok: "segment_ok s" by simp_all
  from ok have "s \<noteq> []" by (simp add: segment_ok_def)
  with dirname_absolute_path[OF oks ok] segs show ?thesis
    by (cases "xs = []") (simp_all add: absolute_path_snoc absolute_path_def)
qed

lemma closestManifestFor_normalised:
  assumes rs: "rs \<noteq> []"
      and ok: "\<forall>x \<in> set (rs @ ds). segment_ok x"
      and fuel: "length ds < n"
      and above: "getClosestPackage_loop fs ''/'' (absolute_path rs) =
                    Some (if hfs_exists fs (join (absolute_path rs) ''package.json'')
                          then Some (join (absolute_path rs) ''package.json'') else None)"
  shows "getClosestPackage_loop fs ''/'' (absolute_path (rs @ ds)) =
           Some (find (hfs_exists fs)
                   (map (\<lambda>d. join d ''package.json'')
                      (takeWhile (within_root (absolute_path rs))
                         (ancestors_upto n (absolute_path (rs @ ds))))))"
  using ok fuel
proof (induction ds arbitrary: n rule: rev_induct)
  case Nil
  then obtain m where n: "n = Suc m" by (cases n) auto
  from rs Nil.prems have oks: "\<forall>x \<in> set rs. segment_ok x" by simp
  have shorter: "length (dirname (absolute_path rs)) < length (absolute_path rs)"
    using rs oks by (rule dirname_normalised_shorter)
  then have ne: "dirname (absolute_path rs) \<noteq> absolute_path rs" by auto
  obtain rest where rest: "ancestors_upto m (dirname (absolute_path rs)) =
                             dirname (absolute_path rs) # rest"
    using ancestors_upto_head by blast
  have out: "\<not> within_root (absolute_path rs) (dirname (absolute_path rs))"
    using shorter by (rule within_root_shorter)
  have self: "within_root (absolute_path rs) (absolute_path rs)"
    by (simp add: within_root_def Let_def)
  have "takeWhile (within_root (absolute_path rs)) (ancestors_upto n (absolute_path rs)) =
          [absolute_path rs]"
    using n ne rest out self by simp
  with above show ?case by simp
next
  case (snoc s ds)
  from snoc.prems obtain m where n: "n = Suc m" and m: "length ds < m" by (cases n) auto
  let ?d = "absolute_path (rs @ ds @ [s])"
  from rs have ne: "rs @ ds \<noteq> []" by simp
  from snoc.prems have oks: "\<forall>x \<in> set (rs @ ds). segment_ok x" and oksn: "segment_ok s"
    by simp_all
  have up: "dirname ?d = absolute_path (rs @ ds)"
    using dirname_absolute_path[OF oks oksn] rs by simp
  have "length (dirname ?d) < length ?d"
    using dirname_normalised_shorter[of "rs @ ds @ [s]"] snoc.prems(1) by simp
  then have moved: "dirname ?d \<noteq> ?d" by auto
  have inside: "within_root (absolute_path rs) ?d"
    using within_root_below[OF rs, of "ds @ [s]"] snoc.prems(1) by simp
  note facts = absolute_path_facts[OF ne oks]
  have notdot: "absolute_path (rs @ ds) \<noteq> ''.''" "absolute_path (rs @ ds) \<noteq> ''/''"
    using facts by auto
  have IH: "getClosestPackage_loop fs ''/'' (absolute_path (rs @ ds)) =
           Some (find (hfs_exists fs)
                   (map (\<lambda>d. join d ''package.json'')
                      (takeWhile (within_root (absolute_path rs))
                         (ancestors_upto m (absolute_path (rs @ ds))))))"
    by (rule snoc.IH[OF oks m])
  show ?case
  proof (cases "hfs_exists fs (join ?d ''package.json'')")
    case True
    then show ?thesis
      using n moved inside by (subst getClosestPackage_loop.simps) (simp add: up)
  next
    case False
    then have "getClosestPackage_loop fs ''/'' ?d =
                 getClosestPackage_loop fs ''/'' (absolute_path (rs @ ds))"
      using up notdot by (subst getClosestPackage_loop.simps) simp
    with IH False show ?thesis
      using n moved inside by (simp add: up)
  qed
qed

lemma length_absolute_path: "length segs \<le> length (absolute_path segs)"
  by (induction segs) (simp_all add: absolute_path_Cons)

text \<open>
  With no manifest tracked above a normalised root, the loop entered at the root returns
  the root's own manifest or nothing.
\<close>

lemma getClosestPackage_loop_at_root:
  assumes rs: "rs \<noteq> []"
      and ok: "\<forall>x \<in> set rs. segment_ok x"
      and above: "\<forall>k < length rs. \<not> hfs_exists fs (absolute_path (take k rs @ [''package.json'']))"
  shows "getClosestPackage_loop fs ''/'' (absolute_path rs) =
           Some (if hfs_exists fs (join (absolute_path rs) ''package.json'')
                 then Some (join (absolute_path rs) ''package.json'') else None)"
proof -
  let ?cand = "\<lambda>k. absolute_path (take k rs @ [''package.json''])"
  have okp: "segment_ok ''package.json''" by (simp add: segment_ok_def)
  have own: "join (absolute_path rs) ''package.json'' = ?cand (length rs)"
    using join_absolute_path[OF rs ok okp] by simp
  have list: "rev [1..<Suc (length rs)] = length rs # rev [1..<length rs]"
    using rs by (cases rs) simp_all
  have none: "find (hfs_exists fs) (map ?cand (rev [1..<length rs])) = None"
    using above by (simp add: find_None_iff)
  have "getClosestPackage_loop fs ''/'' (absolute_path rs) =
          Some (find (hfs_exists fs) (map ?cand (rev [1..<Suc (length rs)])))"
    using rs ok by (rule getClosestPackage_loop_normalised)
  also have "find (hfs_exists fs) (map ?cand (rev [1..<Suc (length rs)])) =
               (if hfs_exists fs (?cand (length rs)) then Some (?cand (length rs)) else None)"
    by (simp only: list list.map find.simps none)
  finally show ?thesis by (simp only: own)
qed

lemma getClosestPackage_within_root:
  assumes rs: "rs \<noteq> []"
      and ok: "\<forall>s \<in> set (rs @ ds @ [base]). segment_ok s"
      and above: "\<forall>k < length rs.
                    \<not> hfs_exists (hasteFS g) (absolute_path (take k rs @ [''package.json'']))"
  shows "getClosestPackage g (absolute_path (rs @ ds @ [base])) =
           Some (closestManifestFor (absolute_path rs) (hasteFS g)
                   (absolute_path (rs @ ds @ [base])))"
proof -
  from ok have oks: "\<forall>x \<in> set (rs @ ds). segment_ok x" and okr: "\<forall>x \<in> set rs. segment_ok x"
    and okb: "segment_ok base" by simp_all
  from rs have ne: "rs @ ds \<noteq> []" by simp
  from parse_absolute_path[OF ne oks okb]
  have parsed: "root (parse (absolute_path (rs @ ds @ [base]))) = ''/''"
               "dir (parse (absolute_path (rs @ ds @ [base]))) = absolute_path (rs @ ds)"
    by simp_all
  have fuel: "length ds < Suc (length (absolute_path (rs @ ds)))"
    using length_absolute_path[of "rs @ ds"] by simp
  have "getClosestPackage g (absolute_path (rs @ ds @ [base])) =
          getClosestPackage_loop (hasteFS g) ''/'' (absolute_path (rs @ ds))"
    by (simp add: getClosestPackage_def Let_def parsed)
  also have "\<dots> = Some (find (hfs_exists (hasteFS g))
                   (map (\<lambda>d. join d ''package.json'')
                      (takeWhile (within_root (absolute_path rs))
                         (ancestors_upto (Suc (length (absolute_path (rs @ ds))))
                            (absolute_path (rs @ ds))))))"
    using rs oks fuel getClosestPackage_loop_at_root[OF rs okr above]
    by (rule closestManifestFor_normalised)
  finally show ?thesis
    by (simp add: closestManifestFor_def spec_walk_dirs_def ancestor_dirs_def parsed)
qed


section \<open>_getClosestPackage\<close>

text \<open>
  C5, as stated, fails: the walk of the specification stays within the registry's root
  and so reaches that root; the loop stops before the root of the path. With the
  registry rooted at \<^verbatim>\<open>/\<close> and \<^verbatim>\<open>/package.json\<close> tracked, the first ancestor of
  \<^verbatim>\<open>/a/b.js\<close> with a manifest is the root, and \<^verbatim>\<open>_getClosestPackage\<close> returns
  \<^verbatim>\<open>null\<close>.
\<close>

theorem closestManifestFor_root_counterexample:
  "hfs_exists (hasteFS root_manifest_graph) ''/package.json'' \<and>
   spec_walk_dirs ''/'' ''/a/b.js'' = [''/a'', ''/''] \<and>
   closestManifestFor ''/'' (hasteFS root_manifest_graph) ''/a/b.js'' = Some ''/package.json'' \<and>
   getClosestPackage root_manifest_graph ''/a/b.js'' = Some None"
  by code_simp

text \<open>
  C5, amended. \<^verbatim>\<open>_getClosestPackage\<close> always returns. It walks upward from the file's
  own directory, each further directory being the parent of the one before, and returns
  the manifest path of the first directory of its walk whose manifest path exists in the
  registry, or \<^verbatim>\<open>null\<close> when none has one. The walk is bounded by the root of the path,
  not by the root of the registry: every directory after the first differs from \<^verbatim>\<open>.\<close>
  and from the root of the path. For a normalised absolute path below a registry root
  that is itself a directory below \<^verbatim>\<open>/\<close>, with no manifest tracked above that root, the
  result is that of the specification's walk within the registry's root.
\<close>

theorem getClosestPackage_first_tracked_manifest:
  "getClosestPackage g file =
     Some (find (hfs_exists (hasteFS g))
             (map (\<lambda>d. join d ''package.json'') (tested_dirs file))) \<and>
   hd (tested_dirs file) = dir (parse file) \<and>
   (\<forall>i. Suc i < length (tested_dirs file) \<longrightarrow>
          tested_dirs file ! Suc i = dirname (tested_dirs file ! i)) \<and>
   (\<forall>d \<in> set (tl (tested_dirs file)). d \<noteq> ''.'' \<and> d \<noteq> root (parse file)) \<and>
   (case find (hfs_exists (hasteFS g))
           (map (\<lambda>d. join d ''package.json'') (tested_dirs file)) of
      Some c \<Rightarrow>
        hfs_exists (hasteFS g) c \<and>
        (\<exists>i < length (tested_dirs file).
           c = join (tested_dirs file ! i) ''package.json'' \<and>
           (\<forall>j < i. \<not> hfs_exists (hasteFS g) (join (tested_dirs file ! j) ''package.json'')))
    | None \<Rightarrow>
        \<forall>d \<in> set (tested_dirs file). \<not> hfs_exists (hasteFS g) (join d ''package.json'')) \<and>
   (rs \<noteq> [] \<longrightarrow> (\<forall>s \<in> set (rs @ ds @ [base]). segment_ok s) \<longrightarrow>
    (\<forall>k < length rs.
       \<not> hfs_exists (hasteFS g) (absolute_path (take k rs @ [''package.json'']))) \<longrightarrow>
      getClosestPackage g (absolute_path (rs @ ds @ [base])) =
        Some (closestManifestFor (absolute_path rs) (hasteFS g)
                (absolute_path (rs @ ds @ [base]))))"
proof (intro conjI impI)
  let ?found = "find (hfs_exists (hasteFS g))
                  (map (\<lambda>d. join d ''package.json'') (tested_dirs file))"
  show "getClosestPackage g file = Some ?found"
    by (rule getClosestPackage_walk)
  show "hd (tested_dirs file) = dir (parse file)"
    by (simp add: tested_dirs_def Let_def)
  show "\<forall>i. Suc i < length (tested_dirs file) \<longrightarrow>
          tested_dirs file ! Suc i = dirname (tested_dirs file ! i)"
    by (simp add: tested_dirs_nth)
  show "\<forall>d \<in> set (tl (tested_dirs file)). d \<noteq> ''.'' \<and> d \<noteq> root (parse file)"
  proof -
    from tested_dirs_shape obtain ds where
        "tested_dirs file = dir (parse file) # ds"
        "\<forall>d \<in> set ds. d \<noteq> ''.'' \<and> d \<noteq> root (parse file)"
      by blast
    then show ?thesis by simp
  qed
  show "case ?found of
      Some c \<Rightarrow>
        hfs_exists (hasteFS g) c \<and>
        (\<exists>i < length (tested_dirs file).
           c = join (tested_dirs file ! i) ''package.json'' \<and>
           (\<forall>j < i. \<not> hfs_exists (hasteFS g) (join (tested_dirs file ! j) ''package.json'')))
    | None \<Rightarrow>
        \<forall>d \<in> set (tested_dirs file). \<not> hfs_exists (hasteFS g) (join d ''package.json'')"
  proof (cases ?found)
    case None
    then have "\<forall>d \<in> set (tested_dirs file). \<not> hfs_exists (hasteFS g) (join d ''package.json'')"
      by (simp add: find_None_iff)
    with None show ?thesis by simp
  next
    case (Some c)
    then obtain i where "i < length (tested_dirs file)"
        "hfs_exists (hasteFS g) (join (tested_dirs file ! i) ''package.json'')"
        "c = join (tested_dirs file ! i) ''package.json''"
        "\<forall>j < i. \<not> hfs_exists (hasteFS g) (join (tested_dirs file ! j) ''package.json'')"
      by (auto simp: find_Some_iff)
    with Some show ?thesis by auto
  qed
next
  assume "rs \<noteq> []"
     and "\<forall>s \<in> set (rs @ ds @ [base]). segment_ok s"
     and "\<forall>k < length rs.
            \<not> hfs_exists (hasteFS g) (absolute_path (take k rs @ [''package.json'']))"
  then show "getClosestPackage g (absolute_path (rs @ ds @ [base])) =
               Some (closestManifestFor (absolute_path rs) (hasteFS g)
                       (absolute_path (rs @ ds @ [base])))"
    by (rule getClosestPackage_within_root)
qed

theorem getClosestPackage_first_tracked_manifest_witness:
  "absolute_path [''proj''] = ''/proj'' \<and>
   absolute_path ([''proj''] @ [''src''] @ [''a.js'']) = ''/proj/src/a.js'' \<and>
   \<not> hfs_exists (hasteFS example_graph) ''/package.json'' \<and>
   spec_walk_dirs ''/proj'' ''/proj/src/a.js'' = [''/proj/src'', ''/proj''] \<and>
   tested_dirs ''/proj/src/a.js'' = [''/proj/src'', ''/proj''] \<and>
   closestManifestFor ''/proj'' (hasteFS example_graph) ''/proj/src/a.js'' =
     Some ''/proj/package.json'' \<and>
   getClosestPackage example_graph ''/proj/src/a.js'' = Some (Some ''/proj/package.json'')"
proof -
  have root: "absolute_path [''proj''] = ''/proj''"
    by (simp add: absolute_path_def)
  have whole: "absolute_path ([''proj''] @ [''src''] @ [''a.js'']) = ''/proj/src/a.js''"
    by (simp add: absolute_path_def)
  have ok: "\<forall>s \<in> set ([''proj''] @ [''src''] @ [''a.js'']). segment_ok s"
    by (simp add: segment_ok_def)
  have untracked: "\<not> hfs_exists (hasteFS example_graph) ''/package.json''"
    by (simp add: example_graph_def example_hasteFS_def)
  then have above: "\<forall>k < length [''proj''].
      \<not> hfs_exists (hasteFS example_graph) (absolute_path (take k [''proj''] @ [''package.json'']))"
    by (simp add: absolute_path_def)
  have "getClosestPackage example_graph (absolute_path ([''proj''] @ [''src''] @ [''a.js''])) =
          Some (closestManifestFor (absolute_path [''proj'']) (hasteFS example_graph)
                  (absolute_path ([''proj''] @ [''src''] @ [''a.js''])))"
    using getClosestPackage_first_tracked_manifest
            [of example_graph "''/proj/src/a.js''" "[''proj'']" "[''src'']" "''a.js''"] ok above
    by blast
  then have same: "getClosestPackage example_graph ''/proj/src/a.js'' =
          Some (closestManifestFor ''/proj'' (hasteFS example_graph) ''/proj/src/a.js'')"
    by (simp only: root whole)
  have spec: "closestManifestFor ''/proj'' (hasteFS example_graph) ''/proj/src/a.js'' =
                Some ''/proj/package.json''"
    by code_simp
  have walk: "spec_walk_dirs ''/proj'' ''/proj/src/a.js'' = [''/proj/src'', ''/proj'']"
    by code_simp
  have tested: "tested_dirs ''/proj/src/a.js'' = [''/proj/src'', ''/proj'']"
    by code_simp
  from same spec have "getClosestPackage example_graph ''/proj/src/a.js'' =
                         Some (Some ''/proj/package.json'')"
    by simp
  with root whole untracked walk tested spec show ?thesis by blast
qed

text \<open>
  C9, as stated, fails. For a file that lies directly in the root directory the loop
  body runs once with the root as the current directory, before the condition is looked
  at, and a tracked \<^verbatim>\<open>/package.json\<close> is returned. The condition compares strings: for
  the path \<^verbatim>\<open>//a/x.js\<close> the directory \<^verbatim>\<open>//\<close> is let through, and its manifest is
  \<^verbatim>\<open>/package.json\<close> again.
\<close>

theorem getClosestPackage_root_counterexample:
  "hfs_exists (hasteFS root_manifest_graph) ''/package.json'' \<and>
   dir (parse ''/c.js'') = root (parse ''/c.js'') \<and>
   getClosestPackage root_manifest_graph ''/c.js'' = Some (Some ''/package.json'') \<and>
   tested_dirs ''//a/x.js'' = [''//a'', ''//''] \<and>
   getClosestPackage root_manifest_graph ''//a/x.js'' = Some (Some ''/package.json'')"
  by code_simp

text \<open>
  C9, amended. The loop tests the file's own directory before it looks at the exit
  condition; every value \<^verbatim>\<open>dir\<close> takes afterwards differs, as a string, from the root of
  the path and from \<^verbatim>\<open>.\<close>. So when the file's own directory is the root (a file directly
  in \<^verbatim>\<open>/\<close>), a tracked root manifest is returned. For a normalised absolute path with at
  least one directory segment, the manifests tested are exactly those of the file's
  ancestor directories below the root, nearest first; \<^verbatim>\<open>/package.json\<close> is not among them,
  and the function returns \<^verbatim>\<open>null\<close> when none of these ancestors has a tracked manifest,
  whatever else the registry tracks.
\<close>

theorem getClosestPackage_root_only_as_own_directory:
  "(\<exists>ds. tested_dirs file = dir (parse file) # ds \<and>
         (\<forall>d \<in> set ds. d \<noteq> ''.'' \<and> d \<noteq> root (parse file)) \<and>
         getClosestPackage g file =
           Some (find (hfs_exists (hasteFS g))
                   (map (\<lambda>d. join d ''package.json'') (dir (parse file) # ds)))) \<and>
   (dir (parse file) = root (parse file) \<longrightarrow>
    hfs_exists (hasteFS g) (join (root (parse file)) ''package.json'') \<longrightarrow>
      getClosestPackage g file = Some (Some (join (root (parse file)) ''package.json''))) \<and>
   (segs \<noteq> [] \<longrightarrow> (\<forall>s \<in> set (segs @ [base]). segment_ok s) \<longrightarrow>
      getClosestPackage g (absolute_path (segs @ [base])) =
        Some (find (hfs_exists (hasteFS g))
                (map (\<lambda>k. absolute_path (take k segs @ [''package.json'']))
                   (rev [1..<Suc (length segs)]))) \<and>
      ''/package.json'' \<notin> set (map (\<lambda>k. absolute_path (take k segs @ [''package.json'']))
                                  (rev [1..<Suc (length segs)])) \<and>
      ((\<forall>k. 1 \<le> k \<and> k \<le> length segs \<longrightarrow>
            \<not> hfs_exists (hasteFS g) (absolute_path (take k segs @ [''package.json'']))) \<longrightarrow>
       getClosestPackage g (absolute_path (segs @ [base])) = Some None))"
proof (intro conjI impI)
  from tested_dirs_shape obtain ds where
      ds: "tested_dirs file = dir (parse file) # ds"
          "\<forall>d \<in> set ds. d \<noteq> ''.'' \<and> d \<noteq> root (parse file)"
    by blast
  have "getClosestPackage g file =
          Some (find (hfs_exists (hasteFS g)) (map (\<lambda>d. join d ''package.json'') (tested_dirs file)))"
    by (rule getClosestPackage_walk)
  with ds show "\<exists>ds. tested_dirs file = dir (parse file) # ds \<and>
         (\<forall>d \<in> set ds. d \<noteq> ''.'' \<and> d \<noteq> root (parse file)) \<and>
         getClosestPackage g file =
           Some (find (hfs_exists (hasteFS g))
                   (map (\<lambda>d. join d ''package.json'') (dir (parse file) # ds)))"
    by auto
next
  assume "dir (parse file) = root (parse file)"
     and "hfs_exists (hasteFS g) (join (root (parse file)) ''package.json'')"
  then show "getClosestPackage g file = Some (Some (join (root (parse file)) ''package.json''))"
    unfolding getClosestPackage_def Let_def
    by (subst getClosestPackage_loop.simps) simp
next
  assume segs: "segs \<noteq> []" and ok: "\<forall>s \<in> set (segs @ [base]). segment_ok s"
  show "getClosestPackage g (absolute_path (segs @ [base])) =
        Some (find (hfs_exists (hasteFS g))
                (map (\<lambda>k. absolute_path (take k segs @ [''package.json'']))
                   (rev [1..<Suc (length segs)])))"
    using segs ok by (rule getClosestPackage_normalised)
next
  assume segs: "segs \<noteq> []"
  show "''/package.json'' \<notin> set (map (\<lambda>k. absolute_path (take k segs @ [''package.json'']))
                                  (rev [1..<Suc (length segs)]))"
  proof
    assume "''/package.json'' \<in> set (map (\<lambda>k. absolute_path (take k segs @ [''package.json'']))
                                      (rev [1..<Suc (length segs)]))"
    then obtain k where "1 \<le> k" "absolute_path (take k segs @ [''package.json'']) = ''/package.json''"
      by auto
    with root_manifest_not_tested[OF _ segs] show False by blast
  qed
next
  assume segs: "segs \<noteq> []" and ok: "\<forall>s \<in> set (segs @ [base]). segment_ok s"
     and none: "\<forall>k. 1 \<le> k \<and> k \<le> length segs \<longrightarrow>
                  \<not> hfs_exists (hasteFS g) (absolute_path (take k segs @ [''package.json'']))"
  have "find (hfs_exists (hasteFS g))
          (map (\<lambda>k. absolute_path (take k segs @ [''package.json'']))
             (rev [1..<Suc (length segs)])) = None"
    using none by (auto simp: find_None_iff)
  with getClosestPackage_normalised[OF segs ok]
  show "getClosestPackage g (absolute_path (segs @ [base])) = Some None"
    by simp
qed

theorem getClosestPackage_root_only_as_own_directory_witness:
  "hfs_exists (hasteFS root_manifest_graph) ''/package.json'' \<and>
   hfs_exists (hasteFS root_manifest_graph) ''/x/package.json'' \<and>
   absolute_path ([''a''] @ [''b.js'']) = ''/a/b.js'' \<and>
   tested_dirs ''/a/b.js'' = [''/a''] \<and>
   getClosestPackage root_manifest_graph ''/a/b.js'' = Some None"
proof -
  have none: "\<forall>k. 1 \<le> k \<and> k \<le> length [''a''] \<longrightarrow>
                \<not> hfs_exists (hasteFS root_manifest_graph)
                     (absolute_path (take k [''a''] @ [''package.json'']))"
  proof (intro allI impI)
    fix k :: nat
    assume "1 \<le> k \<and> k \<le> length [''a'']"
    then have "k = 1" by simp
    then show "\<not> hfs_exists (hasteFS root_manifest_graph)
                     (absolute_path (take k [''a''] @ [''package.json'']))"
      by (simp add: absolute_path_def root_manifest_graph_def example_graph_def
            example_hasteFS_def)
  qed
  have ok: "\<forall>s \<in> set ([''a''] @ [''b.js'']). segment_ok s"
    by (simp add: segment_ok_def)
  have segs: "[''a''] \<noteq> ([] :: string list)" by simp
  have "getClosestPackage root_manifest_graph (absolute_path ([''a''] @ [''b.js''])) = Some None"
    using getClosestPackage_root_only_as_own_directory
            [of "''/a/b.js''" root_manifest_graph "[''a'']" "''b.js''"] segs ok none
    by blast
  moreover have path: "absolute_path ([''a''] @ [''b.js'']) = ''/a/b.js''"
    by (simp add: absolute_path_def)
  moreover have "tested_dirs ''/a/b.js'' = [''/a'']" by code_simp
  moreover have "hfs_exists (hasteFS root_manifest_graph) ''/package.json''"
    by (simp add: root_manifest_graph_def example_graph_def example_hasteFS_def)
  moreover have "hfs_exists (hasteFS root_manifest_graph) ''/x/package.json''"
    by (simp add: root_manifest_graph_def example_graph_def example_hasteFS_def)
  ultimately show ?thesis by simp
qed


section \<open>_onHasteChange\<close>

text \<open>
  C3. Whatever the batch, the handler leaves the asset cache empty, and the module cache
  loses exactly the entries at the paths of the batch's events: every other entry is as
  it was. The kind of an event plays no part: relabelling the events of the batch
  changes nothing.
\<close>

theorem onHasteChange_purges_caches:
  "assetResolutionCache (onHasteChange change g) = Map.empty \<and>
   moduleCache (onHasteChange change g) =
     (\<lambda>p. if p \<in> filePath ` set (eventsQueue change) then None else moduleCache g p) \<and>
   moduleCache
     (onHasteChange
        (change\<lparr>eventsQueue := map (\<lambda>ev. ev\<lparr>type := kind ev\<rparr>) (eventsQueue change)\<rparr>) g) =
     moduleCache (onHasteChange change g)"
  by (simp add: onHasteChange_def Let_def emit_def createModuleResolver_def clear_def
        processFileChange_foldl image_image cong: if_cong)

theorem onHasteChange_purges_caches_witness:
  "assetResolutionCache example_graph (''/proj/img'', ''logo'', None) = Some [''/proj/img/logo.png''] \<and>
   assetResolutionCache (onHasteChange example_change example_graph) = Map.empty \<and>
   moduleCache example_graph ''/proj/src/b.js'' = Some \<lparr>path = ''/proj/src/b.js''\<rparr> \<and>
   moduleCache (onHasteChange example_change example_graph) ''/proj/src/b.js'' = None"
proof -
  note purge = onHasteChange_purges_caches[of example_change example_graph]
  have "moduleCache (onHasteChange example_change example_graph) ''/proj/src/b.js'' =
          (if ''/proj/src/b.js'' \<in> filePath ` set (eventsQueue example_change) then None
           else moduleCache example_graph ''/proj/src/b.js'')"
    using purge by simp
  also have "\<dots> = None"
    by (simp add: example_change_def)
  finally have "moduleCache (onHasteChange example_change example_graph) ''/proj/src/b.js'' = None" .
  moreover have "assetResolutionCache (onHasteChange example_change example_graph) = Map.empty"
    using purge by (rule conjunct1)
  moreover have "assetResolutionCache example_graph (''/proj/img'', ''logo'', None) =
                   Some [''/proj/img/logo.png'']"
    by (simp add: example_graph_def)
  moreover have "moduleCache example_graph ''/proj/src/b.js'' = Some \<lparr>path = ''/proj/src/b.js''\<rparr>"
    by (simp add: example_graph_def)
  ultimately show ?thesis by simp
qed

text \<open>
  C4. The handler adds exactly one entry to the log of emitted events, a
  \<^verbatim>\<open>change\<close> event. What a listener reads at that moment is the final state of the
  call: the new registry snapshot, the index rebuilt from that very snapshot, an empty
  asset cache, the new module map, the module cache after every invalidation, and the
  resolver rebuilt over the new module map.
\<close>

theorem onHasteChange_emits_once_after_rebuild:
  "\<exists>seen. emitted (onHasteChange change g) = emitted g @ [(''change'', seen)] \<and>
     seen = GraphFields.truncate (onHasteChange change g) \<and>
     hasteFS seen = change_hasteFS change \<and>
     filesByDirNameIndex seen = FilesByDirNameIndex (hfs_getAllFiles (hasteFS seen)) \<and>
     assetResolutionCache seen = Map.empty \<and>
     moduleMap seen = change_moduleMap change \<and>
     moduleCache seen =
       foldl (\<lambda>cache ev. processFileChange (type ev) (filePath ev) cache)
         (moduleCache g) (eventsQueue change) \<and>
     moduleResolver seen =
       \<lparr>mr_extraNodeModules = extraNodeModules (resolver (config g)),
        mr_mainFields = resolverMainFields (resolver (config g)),
        mr_moduleMap = change_moduleMap change,
        mr_preferNativePlatform = True,
        mr_resolveRequest = resolveRequest (resolver (config g)),
        mr_sourceExts = sourceExts (resolver (config g))\<rparr>"
  by (simp add: onHasteChange_def Let_def emit_def createModuleResolver_def clear_def
        GraphFields.truncate_def)

theorem onHasteChange_emits_once_after_rebuild_witness:
  "emitted example_graph = [] \<and>
   map fst (emitted (onHasteChange example_change example_graph)) = [''change''] \<and>
   map (filesByDirNameIndex \<circ> snd) (emitted (onHasteChange example_change example_graph)) =
     [FilesByDirNameIndex [''/proj/package.json'', ''/proj/src/a.js'', ''/proj/src/c.js'']] \<and>
   map (hfs_getAllFiles \<circ> hasteFS \<circ> snd) (emitted (onHasteChange example_change example_graph)) =
     [[''/proj/package.json'', ''/proj/src/a.js'', ''/proj/src/c.js'']]"
proof -
  from onHasteChange_emits_once_after_rebuild[of example_change example_graph]
  obtain seen where
      log: "emitted (onHasteChange example_change example_graph) =
              emitted example_graph @ [(''change'', seen)]"
    and fs: "hasteFS seen = change_hasteFS example_change"
    and index: "filesByDirNameIndex seen = FilesByDirNameIndex (hfs_getAllFiles (hasteFS seen))"
    by blast
  have start: "emitted example_graph = []"
    by (simp add: example_graph_def)
  have files: "hfs_getAllFiles (change_hasteFS example_change) =
                 [''/proj/package.json'', ''/proj/src/a.js'', ''/proj/src/c.js'']"
    by (simp add: example_change_def)
  from log start fs index files show ?thesis by simp
qed


section \<open>resolveDependency\<close>





section \<open>getSha1\<close>

text \<open>
  What holds of the branch of lines 188 to 195 whatever the disk and the digest: with
  no hash recorded for the real path, or an empty one, the result is the digest of the
  content read, or the error of the read; and no call ends in the \<^verbatim>\<open>ReferenceError\<close>
  of line 194, the \<^verbatim>\<open>throw\<close> behind the \<^verbatim>\<open>return\<close> being dead.
\<close>

lemma getSha1_missing_hash_branch:
  "(\<forall>message. getSha1 fs digest g filename \<noteq> Inl (ReferenceError message)) \<and>
   (realpathSync fs filename = Inr resolvedPath \<longrightarrow>
    hfs_getSha1 (hasteFS g) resolvedPath = None \<or>
    hfs_getSha1 (hasteFS g) resolvedPath = Some [] \<longrightarrow>
      getSha1 fs digest g filename =
        (case readFileSync fs resolvedPath of
           Inl code \<Rightarrow> Inl (FsError code)
         | Inr content \<Rightarrow> Inr (digest content)))"
  by (auto simp: getSha1_def Let_def split: sum.splits option.splits)

text \<open>Bytes below 128 are their own decoding, so a file of such bytes is read as it is.\<close>

lemma utf8_decode_ascii:
  "\<forall>b \<in> set bs. b < 128 \<Longrightarrow> utf8_decode 0 0 0x80 0xBF bs = bs"
  by (induction bs) auto

lemma utf8_encode_ascii:
  "\<forall>b \<in> set bs. b < 128 \<Longrightarrow> concat (map utf8_encode bs) = bs"
  by (induction bs) (auto simp: utf8_encode_def)

lemma utf8_read_ascii:
  assumes "\<forall>c \<in> set bytes. (of_char c :: nat) < 128"
  shows "utf8_read bytes = bytes"
proof -
  from assms have small: "\<forall>b \<in> set (map of_char bytes :: nat list). b < 128" by simp
  have "utf8_read bytes = map char_of (map of_char bytes :: nat list)"
    by (simp only: utf8_read_def utf8_decode_ascii[OF small] utf8_encode_ascii[OF small])
  then show ?thesis by (simp add: comp_def)
qed

lemma getSha1_ascii_file:
  assumes "disk_realpath disk filename = Inr resolvedPath"
      and "hfs_getSha1 (hasteFS g) resolvedPath = None"
      and "disk_bytes disk resolvedPath = Inr bytes"
      and "\<forall>c \<in> set bytes. (of_char c :: nat) < 128"
  shows "getSha1 (node_fs disk) sha1_hex g filename = Inr (sha1_hex bytes)"
  using assms by (simp add: getSha1_def node_fs_def Let_def utf8_read_ascii)

text \<open>Bytes that are not UTF-8 are not read as they are.\<close>

lemma utf8_read_ff_fe_00:
  "utf8_read [CHR 0xFF, CHR 0xFE, CHR 0x00] =
     [CHR 0xEF, CHR 0xBF, CHR 0xBD, CHR 0xEF, CHR 0xBF, CHR 0xBD, CHR 0x00]"
  by (simp add: utf8_read_def utf8_encode_def char_of_eq_iff)

lemma utf8_read_fe_ff_00:
  "utf8_read [CHR 0xFE, CHR 0xFF, CHR 0x00] =
     [CHR 0xEF, CHR 0xBF, CHR 0xBD, CHR 0xEF, CHR 0xBF, CHR 0xBD, CHR 0x00]"
  by (simp add: utf8_read_def utf8_encode_def char_of_eq_iff)

text \<open>Evaluating SHA-1: the lists of indices and the padding are unfolded step by step.\<close>

lemma upt_0_numeral: "[0..<numeral n] = 0 # [Suc 0..<numeral n]"
  by (subst upt_rec) simp

lemma upt_Suc_0_numeral:
  "[Suc 0..<numeral n] = (if Suc 0 < numeral n then Suc 0 # [2..<numeral n] else [])"
  by (subst upt_rec) (simp add: numeral_2_eq_2)

lemma replicate_numeral: "replicate (numeral k) x = x # replicate (pred_numeral k) x"
  by (simp add: numeral_eq_Suc)

lemmas sha1_eval =
  sha1_hex_def sha1_pad_def be_bytes_def sha1_block_def sha1_f_def sha1_k_def
  rotl32_def add32_def not32_def hex_word_def hex_digit_def
  upt_0_numeral upt_Suc_0_numeral replicate_numeral

text \<open>The test vector of FIPS 180 for the message \<^verbatim>\<open>abc\<close>.\<close>

lemma sha1_hex_abc: "sha1_hex ''abc'' = ''a9993e364706816aba3e25717850c26c9cd0d89d''"
  by (simp add: sha1_eval)

lemma sha1_hex_ff_fe_00:
  "sha1_hex [CHR 0xFF, CHR 0xFE, CHR 0x00] = ''b11b4321218546dd157b6dd23f1e783339c4c5ee''"
  by (simp add: sha1_eval)

lemma sha1_hex_fe_ff_00:
  "sha1_hex [CHR 0xFE, CHR 0xFF, CHR 0x00] = ''cdf87d886f85d40f1c6921f3554a20863b2c765a''"
  by (simp add: sha1_eval)

lemma sha1_hex_replaced:
  "sha1_hex [CHR 0xEF, CHR 0xBF, CHR 0xBD, CHR 0xEF, CHR 0xBF, CHR 0xBD, CHR 0x00] =
     ''ab6f7ba43cf2365a5ab7b1eb6095c9229b349a9f''"
  by (simp add: sha1_eval)

text \<open>
  C1. For a path whose real target has no recorded hash, \<^verbatim>\<open>getSha1\<close> is to return the
  SHA-1 recomputed from the current bytes of the file. The code does not: line 189 reads
  the file with encoding \<^verbatim>\<open>'utf8'\<close> and lines 190 to 192 hash the decoded string. For
  the text file \<^verbatim>\<open>notes.txt\<close> the two agree. For the file \<^verbatim>\<open>logo.png\<close> of three bytes
  \<^verbatim>\<open>ff fe 00\<close>, whose SHA-1 is \<^verbatim>\<open>b11b4321...\<close>, the call returns \<^verbatim>\<open>ab6f7ba4...\<close>,
  the SHA-1 of the seven bytes \<^verbatim>\<open>ef bf bd ef bf bd 00\<close>; the file \<^verbatim>\<open>icon.png\<close> of bytes
  \<^verbatim>\<open>fe ff 00\<close>, a different file with a different SHA-1, gets the very same value.
\<close>

theorem getSha1_hashes_decoded_text:
  "disk_bytes binary_disk ''/proj/img/notes.txt'' = Inr ''abc'' \<and>
   disk_bytes binary_disk ''/proj/img/logo.png'' = Inr [CHR 0xFF, CHR 0xFE, CHR 0x00] \<and>
   disk_bytes binary_disk ''/proj/img/icon.png'' = Inr [CHR 0xFE, CHR 0xFF, CHR 0x00] \<and>
   hfs_getSha1 (hasteFS example_graph) ''/proj/img/notes.txt'' = None \<and>
   hfs_getSha1 (hasteFS example_graph) ''/proj/img/logo.png'' = None \<and>
   hfs_getSha1 (hasteFS example_graph) ''/proj/img/icon.png'' = None \<and>
   sha1_hex ''abc'' = ''a9993e364706816aba3e25717850c26c9cd0d89d'' \<and>
   sha1_hex [CHR 0xFF, CHR 0xFE, CHR 0x00] = ''b11b4321218546dd157b6dd23f1e783339c4c5ee'' \<and>
   sha1_hex [CHR 0xFE, CHR 0xFF, CHR 0x00] = ''cdf87d886f85d40f1c6921f3554a20863b2c765a'' \<and>
   getSha1 (node_fs binary_disk) sha1_hex example_graph ''/proj/img/notes.txt'' =
     Inr ''a9993e364706816aba3e25717850c26c9cd0d89d'' \<and>
   getSha1 (node_fs binary_disk) sha1_hex example_graph ''/proj/img/logo.png'' =
     Inr ''ab6f7ba43cf2365a5ab7b1eb6095c9229b349a9f'' \<and>
   getSha1 (node_fs binary_disk) sha1_hex example_graph ''/proj/img/icon.png'' =
     Inr ''ab6f7ba43cf2365a5ab7b1eb6095c9229b349a9f''"
proof -
  have plain: "disk_bytes binary_disk ''/proj/img/notes.txt'' = Inr ''abc''"
    by (simp add: binary_disk_def)
  have logo: "disk_bytes binary_disk ''/proj/img/logo.png'' = Inr [CHR 0xFF, CHR 0xFE, CHR 0x00]"
    by (simp add: binary_disk_def)
  have icon: "disk_bytes binary_disk ''/proj/img/icon.png'' = Inr [CHR 0xFE, CHR 0xFF, CHR 0x00]"
    by (simp add: binary_disk_def)
  have no_notes: "hfs_getSha1 (hasteFS example_graph) ''/proj/img/notes.txt'' = None"
    by (simp add: example_graph_def example_hasteFS_def)
  have no_logo: "hfs_getSha1 (hasteFS example_graph) ''/proj/img/logo.png'' = None"
    by (simp add: example_graph_def example_hasteFS_def)
  have no_icon: "hfs_getSha1 (hasteFS example_graph) ''/proj/img/icon.png'' = None"
    by (simp add: example_graph_def example_hasteFS_def)
  have real_notes: "disk_realpath binary_disk ''/proj/img/notes.txt'' = Inr ''/proj/img/notes.txt''"
    by (simp add: binary_disk_def)
  have real_logo: "realpathSync (node_fs binary_disk) ''/proj/img/logo.png'' =
                     Inr ''/proj/img/logo.png''"
    by (simp add: node_fs_def binary_disk_def)
  have real_icon: "realpathSync (node_fs binary_disk) ''/proj/img/icon.png'' =
                     Inr ''/proj/img/icon.png''"
    by (simp add: node_fs_def binary_disk_def)
  have "getSha1 (node_fs binary_disk) sha1_hex example_graph ''/proj/img/notes.txt'' =
          Inr (sha1_hex ''abc'')"
    using real_notes no_notes plain by (rule getSha1_ascii_file) simp
  then have got_notes:
    "getSha1 (node_fs binary_disk) sha1_hex example_graph ''/proj/img/notes.txt'' =
       Inr ''a9993e364706816aba3e25717850c26c9cd0d89d''"
    by (simp only: sha1_hex_abc)
  have "getSha1 (node_fs binary_disk) sha1_hex example_graph ''/proj/img/logo.png'' =
          (case readFileSync (node_fs binary_disk) ''/proj/img/logo.png'' of
             Inl code \<Rightarrow> Inl (FsError code)
           | Inr content \<Rightarrow> Inr (sha1_hex content))"
    using getSha1_missing_hash_branch real_logo no_logo by blast
  also have "\<dots> = Inr (sha1_hex (utf8_read [CHR 0xFF, CHR 0xFE, CHR 0x00]))"
    using logo by (simp add: node_fs_def)
  finally have got_logo:
    "getSha1 (node_fs binary_disk) sha1_hex example_graph ''/proj/img/logo.png'' =
       Inr ''ab6f7ba43cf2365a5ab7b1eb6095c9229b349a9f''"
    by (simp only: utf8_read_ff_fe_00 sha1_hex_replaced)
  have "getSha1 (node_fs binary_disk) sha1_hex example_graph ''/proj/img/icon.png'' =
          (case readFileSync (node_fs binary_disk) ''/proj/img/icon.png'' of
             Inl code \<Rightarrow> Inl (FsError code)
           | Inr content \<Rightarrow> Inr (sha1_hex content))"
    using getSha1_missing_hash_branch real_icon no_icon by blast
  also have "\<dots> = Inr (sha1_hex (utf8_read [CHR 0xFE, CHR 0xFF, CHR 0x00]))"
    using icon by (simp add: node_fs_def)
  finally have got_icon:
    "getSha1 (node_fs binary_disk) sha1_hex example_graph ''/proj/img/icon.png'' =
       Inr ''ab6f7ba43cf2365a5ab7b1eb6095c9229b349a9f''"
    by (simp only: utf8_read_fe_ff_00 sha1_hex_replaced)
  from plain logo icon no_notes no_logo no_icon sha1_hex_abc sha1_hex_ff_fe_00
    sha1_hex_fe_ff_00 got_notes got_logo got_icon
  show ?thesis by blast
qed

text \<open>
  C6. When the registry records a hash for the real path of a file, \<^verbatim>\<open>getSha1\<close> returns
  exactly that hash: the lookup is made at the path \<^verbatim>\<open>realpathSync\<close> gives, not at the
  path that was asked for.
\<close>

theorem getSha1_returns_recorded_hash:
  assumes "realpathSync fs filename = Inr resolvedPath"
      and "hfs_getSha1 (hasteFS g) resolvedPath = Some sha1"
      and "sha1 \<noteq> []"
  shows "getSha1 fs digest g filename = Inr sha1"
  using assms by (simp add: getSha1_def Let_def)

theorem getSha1_returns_recorded_hash_witness:
  "realpathSync example_fs ''/proj/link.js'' = Inr ''/proj/src/a.js'' \<and>
   hfs_getSha1 (hasteFS example_graph) ''/proj/link.js'' = None \<and>
   hfs_getSha1 (hasteFS example_graph) ''/proj/src/a.js'' =
     Some ''a9993e364706816aba3e25717850c26c9cd0d89d'' \<and>
   getSha1 example_fs example_digest example_graph ''/proj/link.js'' =
     Inr ''a9993e364706816aba3e25717850c26c9cd0d89d''"
proof -
  have real: "realpathSync example_fs ''/proj/link.js'' = Inr ''/proj/src/a.js''"
    by (simp add: example_fs_def)
  have hash: "hfs_getSha1 (hasteFS example_graph) ''/proj/src/a.js'' =
                Some ''a9993e364706816aba3e25717850c26c9cd0d89d''"
    by (simp add: example_graph_def example_hasteFS_def)
  have link: "hfs_getSha1 (hasteFS example_graph) ''/proj/link.js'' = None"
    by (simp add: example_graph_def example_hasteFS_def)
  have "getSha1 example_fs example_digest example_graph ''/proj/link.js'' =
          Inr ''a9993e364706816aba3e25717850c26c9cd0d89d''"
    by (rule getSha1_returns_recorded_hash[OF real hash]) simp
  with real hash link show ?thesis by simp
qed

text \<open>
  C8. The result of \<^verbatim>\<open>getSha1\<close> depends on nothing but the registry snapshot and on what
  the disk answers for the path and for its real path. Two calls made on graphs with the
  same snapshot and on disks that agree there return the same value, whatever else
  differs between the two graphs (caches, resolver, events emitted in between).
\<close>

theorem getSha1_stable:
  assumes "hasteFS g1 = hasteFS g2"
      and "realpathSync fs1 filename = realpathSync fs2 filename"
      and "\<forall>resolvedPath. realpathSync fs1 filename = Inr resolvedPath \<longrightarrow>
             readFileSync fs1 resolvedPath = readFileSync fs2 resolvedPath"
  shows "getSha1 fs1 digest g1 filename = getSha1 fs2 digest g2 filename"
  using assms by (auto simp: getSha1_def Let_def split: sum.splits)

theorem getSha1_stable_witness:
  "hasteFS (snd (resolveDependency example_newModule readonly_resolution example_graph
                   ''/proj/src/a.js'' ''./missing'' None)) = hasteFS example_graph \<and>
   moduleCache (snd (resolveDependency example_newModule readonly_resolution example_graph
                   ''/proj/src/a.js'' ''./missing'' None)) ''/proj/src/a.js'' \<noteq>
     moduleCache example_graph ''/proj/src/a.js'' \<and>
   getSha1 example_fs example_digest
     (snd (resolveDependency example_newModule readonly_resolution example_graph
             ''/proj/src/a.js'' ''./missing'' None)) ''/proj/src/b.js'' =
   getSha1 example_fs example_digest example_graph ''/proj/src/b.js''"
proof -
  let ?g = "snd (resolveDependency example_newModule readonly_resolution example_graph
                   ''/proj/src/a.js'' ''./missing'' None)"
  have same: "hasteFS ?g = hasteFS example_graph"
    by (simp add: resolveDependency_def readonly_resolution_def getModule_def Let_def
          example_graph_def example_newModule_def)
  have differ: "moduleCache ?g ''/proj/src/a.js'' \<noteq> moduleCache example_graph ''/proj/src/a.js''"
    by (simp add: resolveDependency_def readonly_resolution_def getModule_def Let_def
          example_graph_def example_newModule_def)
  have "getSha1 example_fs example_digest ?g ''/proj/src/b.js'' =
        getSha1 example_fs example_digest example_graph ''/proj/src/b.js''"
    by (rule getSha1_stable[OF same]) simp_all
  with same differ show ?thesis by simp
qed


section \<open>getHasteName\<close>

text \<open>
  C7. \<^verbatim>\<open>getHasteName\<close> returns the global name the registry records for the path when
  there is one, and the path relative to the project root when the registry records none.
\<close>

theorem getHasteName_name_or_relative:
  "(hfs_getModuleName (hasteFS g) file = Some hasteName \<longrightarrow> hasteName \<noteq> [] \<longrightarrow>
      getHasteName relative g file = hasteName) \<and>
   (hfs_getModuleName (hasteFS g) file = None \<longrightarrow>
      getHasteName relative g file = relative (projectRoot (config g)) file)"
  by (simp add: getHasteName_def)

theorem getHasteName_name_or_relative_witness:
  "hfs_getModuleName (hasteFS example_graph) ''/proj/src/a.js'' = Some ''a'' \<and>
   getHasteName example_relative example_graph ''/proj/src/a.js'' = ''a'' \<and>
   hfs_getModuleName (hasteFS example_graph) ''/proj/package.json'' = None \<and>
   getHasteName example_relative example_graph ''/proj/package.json'' = ''package.json''"
proof -
  have named: "hfs_getModuleName (hasteFS example_graph) ''/proj/src/a.js'' = Some ''a''"
    by (simp add: example_graph_def example_hasteFS_def)
  have unnamed: "hfs_getModuleName (hasteFS example_graph) ''/proj/package.json'' = None"
    by (simp add: example_graph_def example_hasteFS_def)
  have first: "getHasteName example_relative example_graph ''/proj/src/a.js'' = ''a''"
    using getHasteName_name_or_relative
            [of example_graph "''/proj/src/a.js''" "''a''" example_relative] named
    by simp
  have "getHasteName example_relative example_graph ''/proj/package.json'' =
          example_relative (projectRoot (config example_graph)) ''/proj/package.json''"
    using getHasteName_name_or_relative
            [of example_graph "''/proj/package.json''" "''a''" example_relative] unnamed
    by simp
  also have "\<dots> = ''package.json''"
    by (simp add: example_relative_def example_graph_def example_config_def)
  finally show ?thesis using named unnamed first by simp
qed

text \<open>
  C10. A global name that is the empty string counts as no name: \<^verbatim>\<open>getHasteName\<close> then
  returns the path relative to the project root, as it does when the registry has no
  name at all.
\<close>

theorem getHasteName_empty_name_is_absent:
  assumes "hfs_getModuleName (hasteFS g) file = Some [] \<or>
           hfs_getModuleName (hasteFS g) file = None"
  shows "getHasteName relative g file = relative (projectRoot (config g)) file"
  using assms by (auto simp: getHasteName_def)

theorem getHasteName_empty_name_is_absent_witness:
  "hfs_getModuleName (hasteFS example_graph) ''/proj/src/b.js'' = Some [] \<and>
   getHasteName example_relative example_graph ''/proj/src/b.js'' = ''src/b.js''"
proof -
  have empty: "hfs_getModuleName (hasteFS example_graph) ''/proj/src/b.js'' = Some []"
    by (simp add: example_graph_def example_hasteFS_def)
  then have "getHasteName example_relative example_graph ''/proj/src/b.js'' =
          example_relative (projectRoot (config example_graph)) ''/proj/src/b.js''"
    by (intro getHasteName_empty_name_is_absent) simp
  also have "\<dots> = ''src/b.js''"
    by (simp add: example_relative_def example_graph_def example_config_def)
  finally show ?thesis using empty by simp
qed

end
